(* ===== verification/Prelude.thy ===== *)
theory Prelude
  imports Main "HOL-Library.Sublist" "HOL-Library.Word"
begin

section \<open>Shared vocabulary of the development\<close>

text \<open>
  What every component uses: the ways a C++ operation of the program can leave the
  defined behaviour (\<open>fault\<close>), the result type that carries them, the fixed width of
  C++ \<open>int\<close> and \<open>unsigned int\<close>, the bytewise exclusive or of the wire format, and
  generic lemmas on lists.  The collections \<open>cxx_simps\<close> and \<open>search_rules\<close> gather what
  the component proofs hand to the simplifier.
\<close>

named_theorems cxx_simps \<open>rewrite rules for the C++ library operations\<close>
named_theorems search_rules \<open>facts on std::string::find\<close>

subsection \<open>Faults\<close>

text \<open>
  A fault is undefined behaviour or an exception that nothing in the program catches:
  a write past a fixed array, a read below the start of a string, a null pointer
  dereference, \<open>std::out_of_range\<close>, \<open>std::length_error\<close>, a division by zero, a signed
  overflow, \<open>erase(end())\<close>, a read of memory that was never written or of an array past
  its end, \<open>delete[]\<close> of a pointer that owns nothing, a use of an object that was
  deleted, or \<open>std::bad_alloc\<close>.
\<close>

datatype fault =
    BufferOverflow
  | BufferUnderrun
  | NullDereference
  | OutOfRange
  | LengthError
  | DivideByZero
  | SignedOverflow
  | EraseEnd
  | UninitialisedRead
  | OutOfBoundsRead
  | InvalidFree
  | UseAfterFree
  | BadAlloc

type_synonym 'a outcome = "fault + 'a"

definition bindE :: "'a outcome \<Rightarrow> ('a \<Rightarrow> 'b outcome) \<Rightarrow> 'b outcome" where
  "bindE m f = (case m of Inl e \<Rightarrow> Inl e | Inr x \<Rightarrow> f x)"

lemma bindE_simps [simp]:
  "bindE (Inl e) f = Inl e"
  "bindE (Inr x) f = f x"
  by (simp_all add: bindE_def)

lemma bindE_eq_Inr [simp]: "bindE m f = Inr y \<longleftrightarrow> (\<exists>x. m = Inr x \<and> f x = Inr y)"
  by (cases m) auto

lemma bindE_eq_Inl: "bindE m f = Inl e \<longleftrightarrow> m = Inl e \<or> (\<exists>x. m = Inr x \<and> f x = Inl e)"
  by (cases m) auto

lemma bindE_assoc: "bindE (bindE m f) g = bindE m (\<lambda>x. bindE (f x) g)"
  by (cases m) auto

subsection \<open>Machine integers\<close>

type_synonym u32 = "32 word"

definition int32 :: "int \<Rightarrow> int" where
  "int32 i = signed_take_bit 31 i"

definition INT_MAX :: int where
  "INT_MAX = 2147483647"

definition INT_MIN :: int where
  "INT_MIN = - 2147483648"

lemma int32_id: "INT_MIN \<le> i \<Longrightarrow> i \<le> INT_MAX \<Longrightarrow> int32 i = i"
  unfolding int32_def INT_MIN_def INT_MAX_def
  by (rule signed_take_bit_int_eq_self) auto

lemma int32_range: "INT_MIN \<le> int32 i \<and> int32 i \<le> INT_MAX"
  using signed_take_bit_int_greater_eq_minus_exp [of 31 i] signed_take_bit_int_less_exp [of 31 i]
  by (auto simp: int32_def INT_MIN_def INT_MAX_def)

subsection \<open>Exclusive or on bytes\<close>

text \<open>
  C++ promotes both \<open>char\<close> operands of \<open>^=\<close> to \<open>int\<close>, and the assignment keeps the low
  eight bits: bit by bit, the result is the difference of the operands' bits.
\<close>

fun xor_char :: "char \<Rightarrow> char \<Rightarrow> char" where
  "xor_char (Char a0 a1 a2 a3 a4 a5 a6 a7) (Char b0 b1 b2 b3 b4 b5 b6 b7) =
     Char (a0 \<noteq> b0) (a1 \<noteq> b1) (a2 \<noteq> b2) (a3 \<noteq> b3) (a4 \<noteq> b4) (a5 \<noteq> b5) (a6 \<noteq> b6) (a7 \<noteq> b7)"

lemma xor_char_involution [simp]: "xor_char (xor_char c k) k = c"
  by (cases c; cases k) auto

lemma map_xor_involution [simp]: "map (\<lambda>c. xor_char c k) (map (\<lambda>c. xor_char c k) s) = s"
  by (induction s) auto

subsection \<open>Lists\<close>

lemma take_drop_append: "p \<le> length s \<Longrightarrow> take p s @ drop p s = s"
  by simp

lemma prefix_append_iff: "prefix p s \<longleftrightarrow> take (length p) s = p"
  by (metis append_eq_conv_conj prefix_def append_take_drop_id)

lemma prefix_extend: "prefix p s \<Longrightarrow> prefix p (s @ t)"
  by (simp add: prefix_def) (metis append.assoc)

lemma dropWhile_all: "\<forall>x\<in>set xs. P x \<Longrightarrow> dropWhile P (xs @ ys) = dropWhile P ys"
  by (induction xs) auto

lemma takeWhile_id: "\<forall>x\<in>set xs. P x \<Longrightarrow> takeWhile P xs = xs"
  by (induction xs) auto

subsection \<open>Step relations\<close>

text \<open>
  The state machines of the program, the start of the workers and the running server, are
  step relations.  The contract of an invariant of such a relation, with what follows for
  all reachable states, also for a second fact that the steps keep while the invariant holds.
\<close>

locale invariant_steps =
  fixes step :: "'s \<Rightarrow> 's \<Rightarrow> bool" and inv :: "'s \<Rightarrow> bool"
  assumes inv_step: "inv s \<Longrightarrow> step s t \<Longrightarrow> inv t"
begin

lemma inv_reaches: "step\<^sup>*\<^sup>* s t \<Longrightarrow> inv s \<Longrightarrow> inv t"
  by (induction rule: rtranclp_induct) (auto intro: inv_step)

lemma reaches_with:
  assumes "step\<^sup>*\<^sup>* s t" and "inv s" and "P s"
    and keep: "\<And>x y. inv x \<Longrightarrow> P x \<Longrightarrow> step x y \<Longrightarrow> P y"
  shows "inv t \<and> P t"
  using assms(1-3) by (induction rule: rtranclp_induct) (auto intro: inv_step keep)

end

end
