(* ===== verification/CxxString.thy ===== *)
theory CxxString
  imports Prelude
begin

section \<open>The parts of std::string and of the C library that the program uses\<close>

text \<open>
  \<open>std::string\<close> is \<open>string\<close>, a list of bytes.  \<open>find_str\<close> is \<open>std::string::find\<close> with
  \<open>None\<close> for \<open>npos\<close>; \<open>c_str\<close> cuts at the first NUL, as every reader of a C string does;
  \<open>atoi\<close>, \<open>istream_int\<close> and \<open>int2str\<close> are the conversions between numbers and text.
\<close>

subsection \<open>Searching\<close>

fun find_str :: "string \<Rightarrow> string \<Rightarrow> nat option" where
  "find_str pat [] = (if pat = [] then Some 0 else None)"
| "find_str pat (c # cs) =
     (if prefix pat (c # cs) then Some 0 else map_option Suc (find_str pat cs))"

lemma find_str_empty [simp]: "find_str [] s = Some 0"
  by (cases s) auto

lemma find_str_None [search_rules]: "find_str pat s = None \<longleftrightarrow> \<not> sublist pat s"
  by (induction s) (auto simp: sublist_Cons_right)

lemma find_str_Some_iff:
  "find_str pat s = Some p \<longleftrightarrow>
     p \<le> length s \<and> prefix pat (drop p s) \<and> (\<forall>q<p. \<not> prefix pat (drop q s))"
proof (induction s arbitrary: p)
  case Nil
  then show ?case by auto
next
  case (Cons c cs)
  show ?case
  proof (cases p)
    case 0
    then show ?thesis by auto
  next
    case (Suc p')
    with Cons.IH [of p'] show ?thesis
      by (auto simp: less_Suc_eq_0_disj)
  qed
qed

lemma find_str_bound: "find_str pat s = Some p \<Longrightarrow> p + length pat \<le> length s"
  using prefix_length_le [of pat "drop p s"] by (auto simp: find_str_Some_iff)

lemma find_str_split [search_rules]:
  "find_str pat s = Some p \<Longrightarrow> s = take p s @ pat @ drop (p + length pat) s"
proof -
  assume "find_str pat s = Some p"
  then have "prefix pat (drop p s)" by (simp add: find_str_Some_iff)
  then obtain r where r: "drop p s = pat @ r" by (auto simp: prefix_def)
  then have "drop (p + length pat) s = r"
    by (metis add.commute append_eq_conv_conj drop_drop)
  with r show ?thesis by (metis append_take_drop_id)
qed

lemma find_str_append: "find_str pat s = Some p \<Longrightarrow> find_str pat (s @ t) = Some p"
proof (induction s arbitrary: p)
  case Nil
  then show ?case by (auto split: if_splits)
next
  case (Cons c cs)
  show ?case
  proof (cases "prefix pat (c # cs)")
    case True
    then have "prefix pat ((c # cs) @ t)" by (rule prefix_extend)
    with True Cons.prems show ?thesis by simp
  next
    case False
    with Cons.prems obtain q where q: "find_str pat cs = Some q" and p: "p = Suc q" by auto
    have "\<not> prefix pat ((c # cs) @ t)"
    proof
      assume "prefix pat ((c # cs) @ t)"
      moreover have "length pat \<le> length (c # cs)"
        using find_str_bound [OF q] by simp
      ultimately show False using False by (metis prefix_append_iff take_append diff_is_0_eq take0 append_Nil2)
    qed
    with Cons.IH [OF q] p show ?thesis by simp
  qed
qed

text \<open>\<open>s.substr(0, s.find(pat))\<close>: with \<open>npos\<close> the whole string.\<close>

definition before :: "string \<Rightarrow> string \<Rightarrow> string" where
  "before pat s = (case find_str pat s of None \<Rightarrow> s | Some p \<Rightarrow> take p s)"

lemma before_absent: "\<not> sublist pat s \<Longrightarrow> before pat s = s"
  by (simp add: before_def find_str_None [symmetric])

subsection \<open>C strings\<close>

definition NUL :: char where
  "NUL = CHR 0x00"

definition c_str :: "string \<Rightarrow> string" where
  "c_str s = takeWhile (\<lambda>c. c \<noteq> NUL) s"

lemma c_str_id: "NUL \<notin> set s \<Longrightarrow> c_str s = s"
  unfolding c_str_def by (rule takeWhile_id) auto

lemma c_str_Nil [simp]: "c_str [] = []"
  by (simp add: c_str_def)

lemma length_c_str: "length (c_str s) \<le> length s"
  by (simp add: c_str_def length_takeWhile_le)

lemma NUL_c_str [simp]: "NUL \<notin> set (c_str s)"
  by (auto simp: c_str_def dest: set_takeWhileD)

lemma c_str_idem [simp]: "c_str (c_str s) = c_str s"
  by (rule c_str_id) simp

text \<open>
  \<open>sprintf(buf, ...)\<close> into \<open>char buf[cap]\<close>: the formatted text and its NUL must fit, or
  the write runs past the array.
\<close>

definition sprintf_buf :: "nat \<Rightarrow> string \<Rightarrow> string outcome" where
  "sprintf_buf cap s = (if length s < cap then Inr s else Inl BufferOverflow)"

lemma sprintf_buf_Inr [cxx_simps]: "sprintf_buf cap s = Inr t \<longleftrightarrow> t = s \<and> length s < cap"
  by (auto simp: sprintf_buf_def)

lemma sprintf_buf_Inl [cxx_simps]: "sprintf_buf cap s = Inl e \<longleftrightarrow> e = BufferOverflow \<and> cap \<le> length s"
  by (auto simp: sprintf_buf_def)

subsection \<open>White space and trimming\<close>

definition is_space :: "char \<Rightarrow> bool" where
  "is_space c \<longleftrightarrow> c \<in> {CHR 0x20, CHR 0x0A, CHR 0x09, CHR 0x0B, CHR 0x0D, CHR 0x0C}"

lemma is_space_NUL [simp]: "\<not> is_space NUL"
  by (simp add: is_space_def NUL_def)

subsection \<open>Decimal text\<close>

definition is_digit :: "char \<Rightarrow> bool" where
  "is_digit c \<longleftrightarrow> 48 \<le> (of_char c :: nat) \<and> (of_char c :: nat) \<le> 57"

definition digit_val :: "char \<Rightarrow> nat" where
  "digit_val c = of_char c - 48"

definition digit_char :: "nat \<Rightarrow> char" where
  "digit_char d = char_of (48 + d)"

definition digits_val :: "string \<Rightarrow> nat" where
  "digits_val s = foldl (\<lambda>a c. 10 * a + digit_val c) 0 s"

definition scan_sign :: "string \<Rightarrow> bool \<times> string" where
  "scan_sign s =
     (case s of
        [] \<Rightarrow> (False, [])
      | c # cs \<Rightarrow> if c = CHR ''-'' then (True, cs) else if c = CHR ''+'' then (False, cs) else (False, s))"

definition scan_int :: "string \<Rightarrow> int" where
  "scan_int s =
     (let (neg, t) = scan_sign (dropWhile is_space s);
          v = int (digits_val (takeWhile is_digit t))
      in if neg then - v else v)"

definition clamp :: "int \<Rightarrow> int \<Rightarrow> int \<Rightarrow> int" where
  "clamp lo hi v = max lo (min hi v)"

text \<open>
  \<open>atoi(p)\<close> is \<open>(int) strtol(p, NULL, 10)\<close>: \<open>strtol\<close> saturates at the bounds of the
  64-bit \<open>long\<close>, and the cast keeps the low 32 bits.
\<close>

definition atoi :: "string \<Rightarrow> int" where
  "atoi p = int32 (clamp (- (2 ^ 63)) (2 ^ 63 - 1) (scan_int (c_str p)))"

text \<open>
  \<open>istringstream(s) >> t\<close> for an \<open>int\<close>: white space is skipped; when nothing is left the
  sentry fails and \<open>t\<close> is not written (\<open>None\<close>); text with no number gives 0 and a
  number out of range the nearest bound.
\<close>

definition istream_int :: "string \<Rightarrow> int option" where
  "istream_int s =
     (if dropWhile is_space s = [] then None else Some (clamp INT_MIN INT_MAX (scan_int s)))"

fun nat_digits :: "nat \<Rightarrow> string" where
  "nat_digits n = (if n < 10 then [digit_char n] else nat_digits (n div 10) @ [digit_char (n mod 10)])"

declare nat_digits.simps [simp del]

lemma nat_digits_unfold:
  "n < 10 \<Longrightarrow> nat_digits n = [digit_char n]"
  "10 \<le> n \<Longrightarrow> nat_digits n = nat_digits (n div 10) @ [digit_char (n mod 10)]"
  by (subst nat_digits.simps, simp)+

definition int_text :: "int \<Rightarrow> string" where
  "int_text v = (if v < 0 then CHR ''-'' # nat_digits (nat (- v)) else nat_digits (nat v))"

lemma of_char_digit: "d < 10 \<Longrightarrow> (of_char (digit_char d) :: nat) = 48 + d"
  by (simp add: digit_char_def)

lemma is_digit_digit_char [simp]: "d < 10 \<Longrightarrow> is_digit (digit_char d)"
  by (simp add: is_digit_def of_char_digit)

lemma digit_val_digit_char [simp]: "d < 10 \<Longrightarrow> digit_val (digit_char d) = d"
  by (simp add: digit_val_def of_char_digit)

lemma digits_val_snoc: "digits_val (s @ [c]) = 10 * digits_val s + digit_val c"
  by (simp add: digits_val_def)

lemma nat_digits_all: "c \<in> set (nat_digits n) \<Longrightarrow> is_digit c"
proof (induction n rule: nat_digits.induct)
  case (1 n)
  then show ?case
    by (subst (asm) (2) nat_digits.simps) (auto split: if_splits)
qed

lemma nat_digits_nonempty [simp]: "nat_digits n \<noteq> []"
  by (subst nat_digits.simps) auto

lemma digits_val_nat_digits [simp]: "digits_val (nat_digits n) = n"
proof (induction n rule: nat_digits.induct)
  case (1 n)
  show ?case
  proof (cases "n < 10")
    case True
    then show ?thesis by (subst nat_digits.simps) (simp add: digits_val_def)
  next
    case False
    with 1 show ?thesis by (subst nat_digits.simps) (simp add: digits_val_snoc)
  qed
qed

lemma not_digit_sign: "is_digit c \<Longrightarrow> c \<noteq> CHR ''-'' \<and> c \<noteq> CHR ''+'' \<and> \<not> is_space c \<and> c \<noteq> NUL"
  by (auto simp: is_digit_def is_space_def NUL_def)

lemma takeWhile_nat_digits: "takeWhile is_digit (nat_digits n) = nat_digits n"
  by (rule takeWhile_id) (auto dest: nat_digits_all)

lemma nat_digits_hd: "\<exists>c cs. nat_digits n = c # cs \<and> is_digit c"
proof (cases "nat_digits n")
  case Nil
  then show ?thesis by simp
next
  case (Cons c cs)
  then have "is_digit c" using nat_digits_all [of c n] by simp
  with Cons show ?thesis by simp
qed

lemma int_text_hd: "\<exists>c cs. int_text v = c # cs \<and> \<not> is_space c"
proof (cases "v < 0")
  case True
  then show ?thesis by (simp add: int_text_def is_space_def)
next
  case False
  then show ?thesis
    using nat_digits_hd [of "nat v"] not_digit_sign by (fastforce simp: int_text_def)
qed

lemma int_text_no_space: "c \<in> set (int_text v) \<Longrightarrow> \<not> is_space c \<and> c \<noteq> NUL"
  by (auto simp: int_text_def is_space_def NUL_def split: if_splits
      dest!: nat_digits_all not_digit_sign)

lemma scan_int_int_text: "scan_int (int_text v) = v"
proof (cases "v < 0")
  case True
  then show ?thesis
    by (simp add: scan_int_def int_text_def scan_sign_def is_space_def takeWhile_nat_digits)
next
  case False
  obtain c cs where c: "nat_digits (nat v) = c # cs" "is_digit c"
    using nat_digits_hd by blast
  then have "scan_sign (dropWhile is_space (int_text v)) = (False, nat_digits (nat v))"
    using False not_digit_sign [of c] by (simp add: int_text_def scan_sign_def)
  with False show ?thesis
    by (simp add: scan_int_def takeWhile_nat_digits del: dropWhile.simps)
qed

lemma istream_int_text: "INT_MIN \<le> v \<Longrightarrow> v \<le> INT_MAX \<Longrightarrow> istream_int (int_text v) = Some v"
  using int_text_hd [of v] by (auto simp: istream_int_def scan_int_int_text clamp_def)

lemma c_str_int_text: "c_str (int_text v) = int_text v"
  by (rule c_str_id) (auto dest: int_text_no_space)

lemma atoi_int_text: "INT_MIN \<le> v \<Longrightarrow> v \<le> INT_MAX \<Longrightarrow> atoi (int_text v) = v"
  by (simp add: atoi_def c_str_int_text scan_int_int_text clamp_def int32_id INT_MIN_def INT_MAX_def)

end
