(* ===== verification/Utils.thy ===== *)
theory Utils
  imports CxxString
begin

section \<open>utils.h: splitting and searching of request text\<close>

text \<open>
  \<open>SplitData\<close> is the loop of \<open>utils::SplitData\<close>: it cuts a token off the front of the
  text as long as the delimiter occurs in it and appends the token to the output vector.
  The loop leaves only when \<open>find\<close> returns \<open>npos\<close>, so it is a partial function and
  \<open>None\<close> means that the call does not return.  \<open>split_tokens\<close> is the same cutting as a
  total function; it is what the callers, which pass fixed non-empty delimiters, compute.
\<close>

partial_function (option) SplitData :: "string \<Rightarrow> string \<Rightarrow> string list \<Rightarrow> string list option" where
  "SplitData s delimiter vec_data =
     (case find_str delimiter s of
        None \<Rightarrow> Some vec_data
      | Some pos \<Rightarrow>
          SplitData (drop (pos + length delimiter) s) delimiter (vec_data @ [take pos s]))"

function split_tokens :: "string \<Rightarrow> string \<Rightarrow> string list" where
  "split_tokens delimiter s =
     (case find_str delimiter s of
        None \<Rightarrow> []
      | Some pos \<Rightarrow>
          if delimiter = [] then []
          else take pos s # split_tokens delimiter (drop (pos + length delimiter) s))"
  by pat_completeness auto
termination
proof (relation "measure (\<lambda>(d, s). length s)", simp)
  fix d s :: string and pos
  assume "find_str d s = Some pos" and "d \<noteq> []"
  then show "((d, drop (pos + length d) s), (d, s)) \<in> measure (\<lambda>(d, s). length s)"
    using find_str_bound [of d s pos] by (cases d) auto
qed

declare split_tokens.simps [simp del]

definition CRLF :: string where
  "CRLF = [CHR 0x0D, CHR 0x0A]"

definition SPACE3 :: string where
  "SPACE3 = ''   ''"

definition FindCRLF :: "string \<Rightarrow> bool" where
  "FindCRLF s = (find_str CRLF s \<noteq> None)"

definition FindSPACE :: "string \<Rightarrow> bool" where
  "FindSPACE s = (find_str SPACE3 s \<noteq> None)"

definition int2str :: "int \<Rightarrow> string" where
  "int2str v = int_text v"

text \<open>The text that a list of terminated tokens makes, and the tokens that survive it.\<close>

definition join_tokens :: "string \<Rightarrow> string list \<Rightarrow> string" where
  "join_tokens delimiter ts = concat (map (\<lambda>t. t @ delimiter) ts)"

definition clean_token :: "string \<Rightarrow> string \<Rightarrow> bool" where
  "clean_token delimiter t \<longleftrightarrow> find_str delimiter (t @ delimiter) = Some (length t)"

lemma join_tokens_simps [simp]:
  "join_tokens d [] = []"
  "join_tokens d (t # ts) = t @ d @ join_tokens d ts"
  by (simp_all add: join_tokens_def)

lemma CRLF_nonempty [simp]: "CRLF \<noteq> []"
  by (simp add: CRLF_def)

lemma SPACE3_nonempty [simp]: "SPACE3 \<noteq> []"
  by (simp add: SPACE3_def)

lemma split_tokens_absent: "find_str d s = None \<Longrightarrow> split_tokens d s = []"
  by (subst split_tokens.simps) simp

lemma split_tokens_found:
  "find_str d s = Some p \<Longrightarrow> d \<noteq> [] \<Longrightarrow>
     split_tokens d s = take p s # split_tokens d (drop (p + length d) s)"
  by (subst split_tokens.simps) simp

lemma SplitData_eq_split_tokens:
  assumes "delimiter \<noteq> []"
  shows "SplitData s delimiter vec_data = Some (vec_data @ split_tokens delimiter s)"
  using assms
proof (induction delimiter s arbitrary: vec_data rule: split_tokens.induct)
  case (1 d s)
  show ?case
  proof (cases "find_str d s")
    case None
    then show ?thesis by (simp add: SplitData.simps [of s] split_tokens_absent)
  next
    case (Some p)
    with 1 show ?thesis
      by (simp add: SplitData.simps [of s] split_tokens_found)
  qed
qed

lemma split_tokens_join:
  assumes "d \<noteq> []" and "\<forall>t\<in>set ts. clean_token d t"
  shows "split_tokens d (join_tokens d ts @ r) = ts @ split_tokens d r"
  using assms(2)
proof (induction ts)
  case Nil
  then show ?case by simp
next
  case (Cons t ts)
  then have "find_str d (t @ d) = Some (length t)" by (simp add: clean_token_def)
  from find_str_append [OF this, of "join_tokens d ts @ r"]
  have "find_str d (t @ d @ join_tokens d ts @ r) = Some (length t)" by simp
  then show ?case
    using Cons assms(1) by (simp add: split_tokens_found)
qed

lemma split_tokens_nonempty_iff: "d \<noteq> [] \<Longrightarrow> split_tokens d s \<noteq> [] \<longleftrightarrow> find_str d s \<noteq> None"
  by (cases "find_str d s") (auto simp: split_tokens_absent split_tokens_found)

lemma split_tokens_length: "t \<in> set (split_tokens d s) \<Longrightarrow> length t + length d \<le> length s"
proof (induction d s rule: split_tokens.induct)
  case (1 d s)
  show ?case
  proof (cases "find_str d s")
    case None
    with 1 show ?thesis by (simp add: split_tokens_absent)
  next
    case (Some p)
    show ?thesis
    proof (cases "d = []")
      case True
      with 1(2) Some show ?thesis by (subst (asm) split_tokens.simps) simp
    next
      case False
      with 1 Some find_str_bound [OF Some] show ?thesis
        by (force simp: split_tokens_found)
    qed
  qed
qed

lemma sum_split_tokens:
  "sum_list (map length (split_tokens d s)) + length d * length (split_tokens d s) \<le> length s"
proof (induction d s rule: split_tokens.induct)
  case (1 d s)
  show ?case
  proof (cases "find_str d s")
    case None
    with 1 show ?thesis by (simp add: split_tokens_absent)
  next
    case (Some p)
    show ?thesis
    proof (cases "d = []")
      case True
      with Some show ?thesis by (subst (1 2) split_tokens.simps) simp
    next
      case False
      with 1 [OF Some] find_str_bound [OF Some] Some show ?thesis
        by (simp add: split_tokens_found)
    qed
  qed
qed

lemma clean_token_no_delimiter:
  assumes "find_str d s = Some p"
  shows "clean_token d (take p s)"
proof -
  let ?t = "take p s"
  from find_str_split [OF assms] have s: "s = (?t @ d) @ drop (p + length d) s" by simp
  from find_str_bound [OF assms] have len: "length ?t = p" by simp
  have "find_str d (?t @ d) = Some p"
  proof -
    have "prefix d (drop p (?t @ d))" using len by simp
    moreover have "\<not> prefix d (drop q (?t @ d))" if "q < p" for q
    proof
      assume "prefix d (drop q (?t @ d))"
      then have "prefix d (drop q (?t @ d) @ drop (p + length d) s)" by (rule prefix_extend)
      moreover have "drop q s = drop q (?t @ d) @ drop (p + length d) s"
        using that len by (subst s) simp
      ultimately show False using assms that by (auto simp: find_str_Some_iff)
    qed
    ultimately show ?thesis using len by (auto simp: find_str_Some_iff)
  qed
  with len show ?thesis by (simp add: clean_token_def)
qed

lemma clean_token_hd:
  assumes "d \<noteq> []" and "hd d \<notin> set t"
  shows "clean_token d t"
proof -
  have "\<not> prefix d (drop q (t @ d))" if "q < length t" for q
  proof
    assume "prefix d (drop q (t @ d))"
    then have "hd d = hd (drop q (t @ d))"
      using assms(1) by (cases d) (auto simp: prefix_def)
    also have "\<dots> = t ! q" using that by (simp add: hd_drop_conv_nth nth_append)
    finally show False using assms(2) that by simp
  qed
  then show ?thesis by (simp add: clean_token_def find_str_Some_iff)
qed

lemma sublist_framed: "find_str d (u @ d @ v) \<noteq> None"
  by (simp add: find_str_None)

lemma split_tokens_clean: "t \<in> set (split_tokens d s) \<Longrightarrow> clean_token d t"
proof (induction d s rule: split_tokens.induct)
  case (1 d s)
  show ?case
  proof (cases "find_str d s")
    case None
    with 1 show ?thesis by (simp add: split_tokens_absent)
  next
    case (Some p)
    show ?thesis
    proof (cases "d = []")
      case True
      with 1(2) Some show ?thesis by (subst (asm) split_tokens.simps) simp
    next
      case False
      with 1 Some show ?thesis
        using clean_token_no_delimiter [OF Some] by (auto simp: split_tokens_found)
    qed
  qed
qed

lemma split_tokens_residue:
  assumes "d \<noteq> []"
  shows "\<exists>r. s = join_tokens d (split_tokens d s) @ r \<and> find_str d r = None"
  using assms
proof (induction d s rule: split_tokens.induct)
  case (1 d s)
  show ?case
  proof (cases "find_str d s")
    case None
    then show ?thesis by (simp add: split_tokens_absent)
  next
    case (Some p)
    with 1 obtain r where "drop (p + length d) s = join_tokens d (split_tokens d (drop (p + length d) s)) @ r"
      and r: "find_str d r = None" by blast
    with find_str_split [OF Some] have
      "s = take p s @ d @ join_tokens d (split_tokens d (drop (p + length d) s)) @ r" by simp
    with Some r 1(2) show ?thesis by (auto simp: split_tokens_found)
  qed
qed

subsection \<open>Properties\<close>

text \<open>
  C30. \<open>SplitData\<close> returns exactly when its delimiter is not empty, and then it appends
  to the caller's vector the tokens of the text: the text is those tokens, each followed
  by the delimiter, and a rest without the delimiter, and no token holds a delimiter
  that starts inside it.  The rest after the last delimiter is not reported.
\<close>

theorem SplitData_spec:
  "(SplitData s d v = None \<longleftrightarrow> d = []) \<and>
   (d = [] \<or>
     (\<exists>ts r. SplitData s d v = Some (v @ ts) \<and> s = join_tokens d ts @ r \<and>
        find_str d r = None \<and> list_all (clean_token d) ts))"
proof (cases "d = []")
  case True
  have "SplitData s d v \<noteq> Some ts" for ts
  proof
    assume ret: "SplitData s d v = Some ts"
    have "d \<noteq> []"
      by (rule SplitData.raw_induct [where P = "\<lambda>s d v r. d \<noteq> []", OF _ ret])
        (auto split: option.splits)
    with True show False by simp
  qed
  with True show ?thesis by auto
next
  case False
  with split_tokens_residue [OF False, of s] show ?thesis
    by (auto simp: SplitData_eq_split_tokens list_all_iff split_tokens_clean)
qed

text \<open>
  Round trip of the request framing: tokens that hold no early delimiter, written
  one after the other with their delimiters, come back from \<open>SplitData\<close> unchanged and
  in order, whatever unterminated text follows them.
\<close>

theorem SplitData_join_roundtrip:
  assumes "d \<noteq> []" and "\<forall>t\<in>set ts. clean_token d t" and "find_str d r = None"
  shows "SplitData (join_tokens d ts @ r) d v = Some (v @ ts)"
  using assms by (simp add: SplitData_eq_split_tokens split_tokens_join split_tokens_absent)

theorem SplitData_join_roundtrip_witness:
  "SplitData (join_tokens SPACE3 [''1'', ''bob'', ''pw''] @ ''x'') SPACE3 [] = Some [''1'', ''bob'', ''pw'']"
proof -
  have "\<forall>t\<in>set [''1'', ''bob'', ''pw'']. clean_token SPACE3 t"
    by (simp add: clean_token_def SPACE3_def)
  moreover have "find_str SPACE3 ''x'' = None" by (simp add: SPACE3_def)
  ultimately show ?thesis
    using SplitData_join_roundtrip [of SPACE3 "[''1'', ''bob'', ''pw'']" "''x''" "[]"] by simp
qed

text \<open>
  \<open>atoi\<close> of the text that \<open>int2str\<close> writes is the number again, for every number
  that an \<open>int\<close> holds.
\<close>

theorem atoi_int2str:
  assumes "INT_MIN \<le> v" and "v \<le> INT_MAX"
  shows "atoi (int2str v) = v"
  using assms by (simp add: int2str_def atoi_int_text)

theorem atoi_int2str_witness: "atoi (int2str (- 8889)) = - 8889"
  by (rule atoi_int2str) (simp_all add: INT_MIN_def INT_MAX_def)

end
