(* ===== verification/ThreadSafeList.thy ===== *)
theory ThreadSafeList
  imports Prelude
begin

section \<open>threadSafe_container.h: the queue between the master and a worker\<close>

text \<open>
  \<open>CThreadSafeList\<close> guards a \<open>std::list\<close> with one mutex that every operation holds from
  its first to its last statement, so an execution by several threads is a sequence of
  whole operations.  The operations are functions on the list; \<open>pop_front\<close> takes the old
  value of its reference parameter and gives the new one.  The contract the workers rely
  on is the locale \<open>fifo_queue\<close>.
\<close>

record 'a CThreadSafeList =
  ts_list :: "'a list"

definition empty_list :: "'a CThreadSafeList" where
  "empty_list = \<lparr>ts_list = []\<rparr>"

definition push_back :: "'a \<Rightarrow> 'a CThreadSafeList \<Rightarrow> 'a CThreadSafeList" where
  "push_back pt l = l\<lparr>ts_list := ts_list l @ [pt]\<rparr>"

definition pop_front :: "'a \<Rightarrow> 'a CThreadSafeList \<Rightarrow> bool \<times> 'a \<times> 'a CThreadSafeList" where
  "pop_front pt l =
     (case ts_list l of
        [] \<Rightarrow> (False, pt, l)
      | x # xs \<Rightarrow> (True, x, l\<lparr>ts_list := xs\<rparr>))"

definition earse :: "'a \<Rightarrow> 'a CThreadSafeList \<Rightarrow> 'a CThreadSafeList" where
  "earse Object l = l\<lparr>ts_list := filter (\<lambda>x. x \<noteq> Object) (ts_list l)\<rparr>"

definition ts_clear :: "'a CThreadSafeList \<Rightarrow> 'a CThreadSafeList" where
  "ts_clear l = (if ts_list l \<noteq> [] then l\<lparr>ts_list := []\<rparr> else l)"

definition ts_size :: "'a CThreadSafeList \<Rightarrow> int" where
  "ts_size l = int32 (int (length (ts_list l)))"

definition ts_empty :: "'a CThreadSafeList \<Rightarrow> bool" where
  "ts_empty l = (ts_list l = [])"

subsection \<open>The queue contract\<close>

datatype 'a queue_op = Push 'a | Pop

fun queue_run ::
  "('a \<Rightarrow> 'q \<Rightarrow> 'q) \<Rightarrow> ('a \<Rightarrow> 'q \<Rightarrow> bool \<times> 'a \<times> 'q) \<Rightarrow> 'a \<Rightarrow> 'a queue_op list \<Rightarrow> 'q \<Rightarrow> 'a list \<times> 'q" where
  "queue_run enq deq y [] q = ([], q)"
| "queue_run enq deq y (Push x # ops) q = queue_run enq deq y ops (enq x q)"
| "queue_run enq deq y (Pop # ops) q =
     (case deq y q of (ok, x, q') \<Rightarrow>
        (case queue_run enq deq y ops q' of (out, r) \<Rightarrow> (if ok then x # out else out, r)))"

fun pushed :: "'a queue_op list \<Rightarrow> 'a list" where
  "pushed [] = []"
| "pushed (Push x # ops) = x # pushed ops"
| "pushed (Pop # ops) = pushed ops"

locale fifo_queue =
  fixes enq :: "'a \<Rightarrow> 'q \<Rightarrow> 'q"
    and deq :: "'a \<Rightarrow> 'q \<Rightarrow> bool \<times> 'a \<times> 'q"
    and contents :: "'q \<Rightarrow> 'a list"
  assumes contents_enq: "contents (enq x q) = contents q @ [x]"
    and deq_none: "contents q = [] \<Longrightarrow> deq y q = (False, y, q)"
    and deq_some: "contents q = x # xs \<Longrightarrow> \<exists>q'. deq y q = (True, x, q') \<and> contents q' = xs"
begin

lemma deq_cases:
  obtains "contents q = []" "deq y q = (False, y, q)"
  | x xs q' where "contents q = x # xs" "deq y q = (True, x, q')" "contents q' = xs"
  using deq_none deq_some by (metis list.exhaust)

lemma run_conserves:
  "queue_run enq deq y ops q = (out, r) \<Longrightarrow> contents q @ pushed ops = out @ contents r"
proof (induction ops arbitrary: q out r rule: pushed.induct)
  case 1
  then show ?case by simp
next
  case (2 x ops)
  from "2.IH" [of "enq x q" out r] "2.prems" show ?case by (simp add: contents_enq)
next
  case (3 ops)
  show ?case
  proof (rule deq_cases [of q y])
    assume "contents q = []" "deq y q = (False, y, q)"
    with "3.IH" [of q out r] "3.prems" show ?thesis by (auto split: prod.splits)
  next
    fix x xs q'
    assume "contents q = x # xs" "deq y q = (True, x, q')" "contents q' = xs"
    with 3 show ?thesis by (fastforce split: prod.splits)
  qed
qed

end

interpretation tsl: fifo_queue push_back pop_front ts_list
  by unfold_locales (auto simp: push_back_def pop_front_def)

subsection \<open>Properties\<close>

text \<open>
  Whatever sequence of \<open>push_back\<close> and \<open>pop_front\<close> the threads perform on an empty
  queue, the values that came out, followed by the values still inside, are the pushed
  values in the order they were pushed: first in first out, nothing lost, nothing twice.
\<close>

theorem CThreadSafeList_fifo:
  "case queue_run push_back pop_front y ops empty_list of
     (out, l) \<Rightarrow> out @ ts_list l = pushed ops"
  using tsl.run_conserves [of y ops empty_list] by (auto simp: empty_list_def split: prod.splits)

text \<open>
  \<open>earse\<close> removes every element equal to its argument and keeps the others in
  order, \<open>clear\<close> leaves the empty queue, and \<open>size\<close> is the number of elements as long as
  an \<open>int\<close> can hold it.
\<close>

theorem CThreadSafeList_removals:
  assumes "int (length (ts_list l)) \<le> INT_MAX"
  shows "x \<notin> set (ts_list (earse x l)) \<and>
    (\<forall>y. y \<noteq> x \<longrightarrow> filter ((=) y) (ts_list (earse x l)) = filter ((=) y) (ts_list l)) \<and>
    ts_size (earse x l) + int (count_list (ts_list l) x) = ts_size l \<and>
    ts_empty (ts_clear l) \<and> ts_size (ts_clear l) = 0"
proof -
  have le: "length (filter (\<lambda>y. y \<noteq> x) (ts_list l)) \<le> length (ts_list l)"
    by (rule length_filter_le)
  have cnt: "length (filter (\<lambda>y. y \<noteq> x) ys) + count_list ys x = length ys" for ys
    by (induction ys) auto
  have "filter (\<lambda>z. z \<noteq> x \<and> y = z) ys = filter ((=) y) ys" if "y \<noteq> x" for y and ys :: "'a list"
    by (rule filter_cong) (use that in auto)
  moreover have "ts_size (earse x l) + int (count_list (ts_list l) x) = ts_size l"
    using assms le cnt [of "ts_list l"]
    by (simp add: ts_size_def earse_def int32_id INT_MIN_def flip: of_nat_add)
  ultimately show ?thesis
    by (auto simp: earse_def ts_clear_def ts_empty_def ts_size_def int32_id INT_MIN_def INT_MAX_def conj_commute)
qed

theorem CThreadSafeList_removals_witness:
  "ts_size (earse 7 \<lparr>ts_list = [7, 8, 7 :: nat]\<rparr>) + int (count_list [7, 8, 7 :: nat] 7) = ts_size \<lparr>ts_list = [7, 8, 7 :: nat]\<rparr>"
  using CThreadSafeList_removals [of "\<lparr>ts_list = [7, 8, 7 :: nat]\<rparr>" 7] by (simp add: INT_MAX_def)

end
