(* ===== verification/ConnPool.thy ===== *)
theory ConnPool
  imports Prelude
begin

section \<open>worker_threads.cc: the pool of connection objects\<close>

text \<open>
  \<open>CWorkerThread\<close> keeps the \<open>CONN\<close> objects of closed connections in the static vector
  \<open>vec_freeconn\<close> with the counters \<open>freetotal\<close> and \<open>freecurr\<close> (the trailing underscore
  of the source is dropped).  Objects live in a heap from addresses to \<open>CONN\<close> records,
  and libevent's bufferevents carry the address of their connection.  Every function that
  touches the vector holds the static mutex, so a call is one step.
  The contract of the pool, a stack of addresses, is the locale \<open>conn_pool\<close>.
\<close>

subsection \<open>Vectors\<close>

definition vec_at :: "'a list \<Rightarrow> int \<Rightarrow> 'a outcome" where
  "vec_at xs i = (if 0 \<le> i \<and> nat i < length xs then Inr (xs ! nat i) else Inl OutOfRange)"

definition vec_set :: "'a list \<Rightarrow> int \<Rightarrow> 'a \<Rightarrow> 'a list outcome" where
  "vec_set xs i x = (if 0 \<le> i \<and> nat i < length xs then Inr (xs[nat i := x]) else Inl OutOfRange)"

definition vec_resize :: "nat \<Rightarrow> 'a option list \<Rightarrow> 'a option list" where
  "vec_resize n xs = take n xs @ replicate (n - length xs) None"

lemma length_vec_resize [simp]: "length (vec_resize n xs) = n"
  by (simp add: vec_resize_def)

lemma take_vec_resize: "m \<le> length xs \<Longrightarrow> m \<le> n \<Longrightarrow> take m (vec_resize n xs) = take m xs"
  by (simp add: vec_resize_def min_absorb1)

subsection \<open>The free list\<close>

type_synonym addr = nat

record freelist =
  vec_freeconn :: "addr option list"
  freetotal :: int
  freecurr :: int

definition static_freelist :: freelist where
  "static_freelist = \<lparr>vec_freeconn = [], freetotal = 0, freecurr = 0\<rparr>"

definition InitFreeConns :: "freelist \<Rightarrow> freelist" where
  "InitFreeConns fl =
     fl\<lparr>freetotal := 200, freecurr := 0, vec_freeconn := vec_resize 200 (vec_freeconn fl)\<rparr>"

definition GetConnFromFreelist :: "freelist \<Rightarrow> (addr option \<times> freelist) outcome" where
  "GetConnFromFreelist fl =
     (if freecurr fl > 0
      then let k = freecurr fl - 1; fl' = fl\<lparr>freecurr := k\<rparr>
           in bindE (vec_at (vec_freeconn fl') k) (\<lambda>conn. Inr (conn, fl'))
      else Inr (None, fl))"

text \<open>
  \<open>freetotal_ * 2\<close> is an \<open>int\<close> product, so it can overflow; the result is converted to
  \<open>size_t\<close>, where a negative number is a length that \<open>resize\<close> refuses.
\<close>

definition AddConnToFreelist :: "addr \<Rightarrow> freelist \<Rightarrow> (bool \<times> freelist) outcome" where
  "AddConnToFreelist conn fl =
     (if freecurr fl < freetotal fl
      then bindE (vec_set (vec_freeconn fl) (freecurr fl) (Some conn))
             (\<lambda>v. Inr (True, fl\<lparr>vec_freeconn := v, freecurr := freecurr fl + 1\<rparr>))
      else if freetotal fl * 2 > INT_MAX \<or> freetotal fl * 2 < INT_MIN then Inl SignedOverflow
      else if freetotal fl < 0 then Inl LengthError
      else let newsize = freetotal fl * 2;
               v = vec_resize (nat newsize) (vec_freeconn fl)
           in bindE (vec_set v (freecurr fl) (Some conn))
                (\<lambda>v'. Inr (True, fl\<lparr>vec_freeconn := v', freetotal := newsize,
                                    freecurr := freecurr fl + 1\<rparr>)))"

text \<open>The representation invariant and the stack that the vector and counter stand for.\<close>

definition pool_inv :: "freelist \<Rightarrow> bool" where
  "pool_inv fl \<longleftrightarrow>
     0 < freetotal fl \<and> 0 \<le> freecurr fl \<and> freecurr fl \<le> freetotal fl \<and>
     length (vec_freeconn fl) = nat (freetotal fl) \<and>
     list_all (\<lambda>c. c \<noteq> None) (take (nat (freecurr fl)) (vec_freeconn fl))"

definition pool_stack :: "freelist \<Rightarrow> addr list" where
  "pool_stack fl = rev (map the (take (nat (freecurr fl)) (vec_freeconn fl)))"

definition POOL_MAX :: nat where
  "POOL_MAX = 1073741824"

subsection \<open>The pool contract\<close>

datatype pool_op = Get | Put addr

fun pool_run ::
  "('p \<Rightarrow> (addr option \<times> 'p) outcome) \<Rightarrow> (addr \<Rightarrow> 'p \<Rightarrow> (bool \<times> 'p) outcome) \<Rightarrow>
   pool_op list \<Rightarrow> 'p \<Rightarrow> (addr option list \<times> 'p) outcome" where
  "pool_run get put [] p = Inr ([], p)"
| "pool_run get put (Get # ops) p =
     bindE (get p) (\<lambda>(c, p'). bindE (pool_run get put ops p') (\<lambda>(out, r). Inr (c # out, r)))"
| "pool_run get put (Put a # ops) p =
     bindE (put a p) (\<lambda>(_, p'). pool_run get put ops p')"

fun stack_run :: "pool_op list \<Rightarrow> addr list \<Rightarrow> addr option list \<times> addr list" where
  "stack_run [] st = ([], st)"
| "stack_run (Get # ops) [] = (case stack_run ops [] of (out, r) \<Rightarrow> (None # out, r))"
| "stack_run (Get # ops) (a # st) = (case stack_run ops st of (out, r) \<Rightarrow> (Some a # out, r))"
| "stack_run (Put a # ops) st = stack_run ops (a # st)"

locale conn_pool =
  fixes get :: "'p \<Rightarrow> (addr option \<times> 'p) outcome"
    and put :: "addr \<Rightarrow> 'p \<Rightarrow> (bool \<times> 'p) outcome"
    and stack :: "'p \<Rightarrow> addr list"
    and inv :: "'p \<Rightarrow> bool"
  assumes get_empty: "inv p \<Longrightarrow> stack p = [] \<Longrightarrow> get p = Inr (None, p)"
    and get_top: "inv p \<Longrightarrow> stack p = a # st \<Longrightarrow>
          \<exists>p'. get p = Inr (Some a, p') \<and> inv p' \<and> stack p' = st"
    and put_top: "inv p \<Longrightarrow>
          (POOL_MAX \<le> length (stack p) \<and> (\<exists>e. put a p = Inl e)) \<or>
          (\<exists>p'. put a p = Inr (True, p') \<and> inv p' \<and> stack p' = a # stack p)"
begin

lemma put_result:
  "inv p \<Longrightarrow> put a p = Inr (ok, p') \<Longrightarrow> ok \<and> inv p' \<and> stack p' = a # stack p"
  using put_top [of p a] by auto

lemma put_room:
  "inv p \<Longrightarrow> length (stack p) < POOL_MAX \<Longrightarrow>
     \<exists>p'. put a p = Inr (True, p') \<and> inv p' \<and> stack p' = a # stack p"
  using put_top [of p a] by auto

lemma get_cases:
  assumes "inv p"
  obtains "stack p = []" "get p = Inr (None, p)"
  | a st p' where "stack p = a # st" "get p = Inr (Some a, p')" "inv p'" "stack p' = st"
  using assms get_empty get_top by (metis list.exhaust)

lemma get_result:
  assumes "inv p" and "get p = Inr (c, p')"
  shows "inv p' \<and> (case c of None \<Rightarrow> stack p = [] \<and> stack p' = [] | Some a \<Rightarrow> stack p = a # stack p')"
  by (rule get_cases [OF assms(1)]) (use assms in auto)

lemma run_refines:
  "inv p \<Longrightarrow> length (stack p) + length ops \<le> POOL_MAX \<Longrightarrow>
     \<exists>p'. pool_run get put ops p = Inr (fst (stack_run ops (stack p)), p') \<and>
          inv p' \<and> stack p' = snd (stack_run ops (stack p))"
proof (induction ops arbitrary: p)
  case Nil
  then show ?case by simp
next
  case (Cons x ops)
  show ?case
  proof (cases x)
    case (Put a)
    with Cons.prems obtain p1 where p1: "put a p = Inr (True, p1)" "inv p1" "stack p1 = a # stack p"
      using put_room [of p a] by auto
    with Cons.IH [of p1] Cons.prems Put show ?thesis by auto
  next
    case Get
    from Cons.prems(1) show ?thesis
    proof (cases rule: get_cases)
      case 1
      with Cons.IH [of p] Cons.prems Get show ?thesis by (auto split: prod.splits)
    next
      case (2 a st p1)
      with Cons.IH [of p1] Cons.prems Get show ?thesis by (auto split: prod.splits)
    qed
  qed
qed

end

lemma take_last_at: "0 < n \<Longrightarrow> n \<le> length xs \<Longrightarrow> take n xs = take (n - 1) xs @ [xs ! (n - 1)]"
  by (metis Suc_pred' less_le_trans less_Suc_eq_le lessI take_Suc_conv_app_nth)

lemma pool_get_top:
  assumes "pool_inv fl" and "pool_stack fl = a # st"
  shows "\<exists>fl'. GetConnFromFreelist fl = Inr (Some a, fl') \<and> pool_inv fl' \<and> pool_stack fl' = st"
proof -
  define n where "n = nat (freecurr fl)"
  have pos: "0 < freecurr fl"
    using assms by (cases "freecurr fl \<le> 0") (auto simp: pool_stack_def)
  have n: "0 < n" "n \<le> length (vec_freeconn fl)" "nat (freecurr fl - 1) = n - 1"
    using pos assms(1) by (auto simp: n_def pool_inv_def)
  have last: "take n (vec_freeconn fl) = take (n - 1) (vec_freeconn fl) @ [vec_freeconn fl ! (n - 1)]"
    using n by (intro take_last_at) auto
  have ne: "vec_freeconn fl ! (n - 1) \<noteq> None"
    using assms(1) by (simp add: pool_inv_def n_def [symmetric] last)
  have st: "a = the (vec_freeconn fl ! (n - 1))" "st = rev (map the (take (n - 1) (vec_freeconn fl)))"
    using assms(2) by (simp_all add: pool_stack_def n_def [symmetric] last)
  have "GetConnFromFreelist fl = Inr (Some a, fl\<lparr>freecurr := freecurr fl - 1\<rparr>)"
    using pos n ne st by (auto simp: GetConnFromFreelist_def vec_at_def Let_def)
  moreover have "pool_inv (fl\<lparr>freecurr := freecurr fl - 1\<rparr>)"
    using assms(1) pos n last by (auto simp: pool_inv_def n_def [symmetric])
  moreover have "pool_stack (fl\<lparr>freecurr := freecurr fl - 1\<rparr>) = st"
    using n st by (simp add: pool_stack_def)
  ultimately show ?thesis by blast
qed

lemma vec_set_stack:
  assumes "0 \<le> i" and "nat i < length v" and "take (nat i) v = take (nat i) w"
  shows "take (nat (i + 1)) (v[nat i := Some a]) = take (nat i) w @ [Some a]"
  using assms by (simp add: nat_add_distrib take_Suc_conv_app_nth)

lemma pool_put_top:
  assumes inv: "pool_inv fl"
  shows "(POOL_MAX \<le> length (pool_stack fl) \<and> (\<exists>e. AddConnToFreelist a fl = Inl e)) \<or>
    (\<exists>fl'. AddConnToFreelist a fl = Inr (True, fl') \<and> pool_inv fl' \<and> pool_stack fl' = a # pool_stack fl)"
proof (cases "freecurr fl < freetotal fl")
  case True
  let ?v = "(vec_freeconn fl)[nat (freecurr fl) := Some a]"
  let ?fl = "fl\<lparr>vec_freeconn := ?v, freecurr := freecurr fl + 1\<rparr>"
  have t: "take (nat (freecurr fl + 1)) ?v = take (nat (freecurr fl)) (vec_freeconn fl) @ [Some a]"
    using True inv by (intro vec_set_stack) (auto simp: pool_inv_def)
  have "AddConnToFreelist a fl = Inr (True, ?fl)"
    using True inv by (simp add: AddConnToFreelist_def vec_set_def pool_inv_def)
  moreover have "pool_inv ?fl" using True inv t by (auto simp: pool_inv_def)
  moreover have "pool_stack ?fl = a # pool_stack fl" using t by (simp add: pool_stack_def)
  ultimately show ?thesis by blast
next
  case False
  let ?w = "vec_resize (nat (freetotal fl * 2)) (vec_freeconn fl)"
  let ?v = "?w[nat (freecurr fl) := Some a]"
  let ?fl = "fl\<lparr>vec_freeconn := ?v, freetotal := freetotal fl * 2, freecurr := freecurr fl + 1\<rparr>"
  have eq: "freecurr fl = freetotal fl" and pos: "0 < freetotal fl"
    and len: "length (vec_freeconn fl) = nat (freetotal fl)"
    using False inv by (auto simp: pool_inv_def)
  show ?thesis
  proof (cases "freetotal fl < 1073741824")
    case False
    then have "AddConnToFreelist a fl = Inl SignedOverflow"
      using eq by (simp add: AddConnToFreelist_def INT_MAX_def)
    moreover have "POOL_MAX \<le> length (pool_stack fl)"
      using False eq pos len by (simp add: pool_stack_def POOL_MAX_def)
    ultimately show ?thesis by blast
  next
    case small: True
    have t: "take (nat (freecurr fl + 1)) ?v = take (nat (freecurr fl)) (vec_freeconn fl) @ [Some a]"
      using eq pos len by (intro vec_set_stack) (auto simp: take_vec_resize)
    have "AddConnToFreelist a fl = Inr (True, ?fl)"
      using eq pos small by (simp add: AddConnToFreelist_def vec_set_def INT_MAX_def INT_MIN_def Let_def)
    moreover have "pool_inv ?fl" using eq pos inv t by (auto simp: pool_inv_def)
    moreover have "pool_stack ?fl = a # pool_stack fl" using t by (simp add: pool_stack_def)
    ultimately show ?thesis by blast
  qed
qed

lemma pool_get_empty: "pool_inv fl \<Longrightarrow> pool_stack fl = [] \<Longrightarrow> GetConnFromFreelist fl = Inr (None, fl)"
  by (auto simp: pool_inv_def pool_stack_def GetConnFromFreelist_def)

interpretation fp: conn_pool GetConnFromFreelist AddConnToFreelist pool_stack pool_inv
  by unfold_locales (simp_all add: pool_get_empty pool_get_top pool_put_top)

lemma InitFreeConns_inv [simp]: "pool_inv (InitFreeConns fl)" "pool_stack (InitFreeConns fl) = []"
  by (simp_all add: pool_inv_def InitFreeConns_def pool_stack_def)

subsection \<open>The size of the pool\<close>

text \<open>The largest number of idle objects that the stack ever holds during a sequence of calls.\<close>

fun stack_peak :: "pool_op list \<Rightarrow> addr list \<Rightarrow> nat" where
  "stack_peak [] st = length st"
| "stack_peak (Get # ops) st = max (length st) (stack_peak ops (tl st))"
| "stack_peak (Put a # ops) st = max (length st) (stack_peak ops (a # st))"

lemma stack_peak_now: "length st \<le> stack_peak ops st"
  by (cases "(ops, st)" rule: stack_peak.cases) auto

lemma Get_freetotal: "GetConnFromFreelist fl = Inr (c, fl') \<Longrightarrow> freetotal fl' = freetotal fl"
  by (auto simp: GetConnFromFreelist_def Let_def split: if_splits)

lemma length_pool_stack: "pool_inv fl \<Longrightarrow> int (length (pool_stack fl)) = freecurr fl"
  by (auto simp: pool_inv_def pool_stack_def min_def)

lemma Add_freetotal:
  assumes "pool_inv fl" and "AddConnToFreelist a fl = Inr (ok, fl')"
  shows "freetotal fl' = (if length (pool_stack fl) < nat (freetotal fl) then freetotal fl else 2 * int (length (pool_stack fl)))"
  using assms(2) length_pool_stack [OF assms(1)] assms(1)
  by (auto simp: AddConnToFreelist_def pool_inv_def Let_def split: if_splits)

definition doubled :: "int \<Rightarrow> bool" where
  "doubled t \<longleftrightarrow> (\<exists>j. t = 200 * 2 ^ j)"

lemma doubled_simps: "doubled 200" "doubled t \<Longrightarrow> doubled (2 * t)"
proof -
  show "doubled 200" unfolding doubled_def by (rule exI [of _ 0]) simp
  assume "doubled t"
  then obtain j where "t = 200 * 2 ^ j" by (auto simp: doubled_def)
  then show "doubled (2 * t)" unfolding doubled_def by (intro exI [of _ "Suc j"]) simp
qed

lemma pool_run_size:
  "pool_inv fl \<Longrightarrow> doubled (freetotal fl) \<Longrightarrow> pool_run GetConnFromFreelist AddConnToFreelist ops fl = Inr (out, fl') \<Longrightarrow>
     doubled (freetotal fl') \<and> freetotal fl' \<le> max (freetotal fl) (2 * int (stack_peak ops (pool_stack fl)))"
proof (induction ops arbitrary: fl out)
  case Nil
  then show ?case by simp
next
  case (Cons x ops)
  show ?case
  proof (cases x)
    case Get
    with Cons.prems(3) obtain c fl1 out1 where 1: "GetConnFromFreelist fl = Inr (c, fl1)"
      "pool_run GetConnFromFreelist AddConnToFreelist ops fl1 = Inr (out1, fl')" by auto
    from fp.get_result [OF Cons.prems(1) 1(1)] have "pool_inv fl1" "pool_stack fl1 = tl (pool_stack fl)"
      by (auto split: option.splits)
    with Cons.IH [OF _ _ 1(2)] Get_freetotal [OF 1(1)] Cons.prems(2) Get show ?thesis by fastforce
  next
    case (Put a)
    with Cons.prems(3) obtain ok fl1 where 1: "AddConnToFreelist a fl = Inr (ok, fl1)"
      "pool_run GetConnFromFreelist AddConnToFreelist ops fl1 = Inr (out, fl')" by auto
    from fp.put_result [OF Cons.prems(1) 1(1)] have 2: "pool_inv fl1" "pool_stack fl1 = a # pool_stack fl" by auto
    have grow: "freetotal fl1 = freetotal fl \<or> freetotal fl1 = 2 * freetotal fl \<and> freetotal fl = int (length (pool_stack fl))"
      using Add_freetotal [OF Cons.prems(1) 1(1)] length_pool_stack [OF Cons.prems(1)] Cons.prems(1)
      by (auto simp: pool_inv_def)
    then have "doubled (freetotal fl1)" using Cons.prems(2) doubled_simps(2) by auto
    from Cons.IH [OF 2(1) this 1(2)] grow stack_peak_now [of "a # pool_stack fl" ops] 2(2) Put
    show ?thesis by auto
  qed
qed

subsection \<open>Properties\<close>

text \<open>
  C24. After \<open>InitFreeConns\<close>, any sequence of at most \<open>POOL_MAX\<close> calls of
  \<open>GetConnFromFreelist\<close> and \<open>AddConnToFreelist\<close> returns (no \<open>std::out_of_range\<close>, no
  overflow of \<open>freetotal * 2\<close>, whatever the vector had to grow) and hands out exactly
  what a stack of addresses hands out: the pool refines a last in first out list.
\<close>

theorem freelist_refines_stack:
  assumes "length ops \<le> POOL_MAX"
  shows "\<exists>fl'. pool_run GetConnFromFreelist AddConnToFreelist ops (InitFreeConns fl) =
            Inr (fst (stack_run ops []), fl') \<and>
          pool_inv fl' \<and> pool_stack fl' = snd (stack_run ops [])"
  using fp.run_refines [of "InitFreeConns fl" ops] assms by simp

theorem freelist_refines_stack_witness:
  "\<exists>fl'. pool_run GetConnFromFreelist AddConnToFreelist [Put 5, Put 9, Get, Get, Get] (InitFreeConns static_freelist) =
            Inr ([Some 9, Some 5, None], fl') \<and>
          pool_inv fl' \<and> pool_stack fl' = []"
  using freelist_refines_stack [of "[Put 5, Put 9, Get, Get, Get]" static_freelist]
  by (simp add: POOL_MAX_def)

text \<open>
  The counters are static: before \<open>InitFreeConns\<close> ran, \<open>AddConnToFreelist\<close> doubles a
  total of zero and its \<open>at\<close> throws, for any connection.
\<close>

theorem AddConnToFreelist_before_init:
  "AddConnToFreelist conn static_freelist = Inl OutOfRange \<and>
   GetConnFromFreelist static_freelist = Inr (None, static_freelist)"
  by (simp add: AddConnToFreelist_def GetConnFromFreelist_def static_freelist_def vec_set_def
      vec_resize_def INT_MAX_def INT_MIN_def Let_def)

text \<open>
  C25. The pool's memory follows its use.  Whatever was taken and returned since
  \<open>InitFreeConns\<close>, the vector has 200 entries times a power of two, exactly as many as
  \<open>freetotal_\<close> says, and more than 200 only up to twice the largest number of idle objects
  that there ever was; the count of idle objects stays inside it.
\<close>

theorem pool_size_bound:
  assumes "pool_run GetConnFromFreelist AddConnToFreelist ops (InitFreeConns fl) = Inr (out, fl')"
    and "length ops \<le> POOL_MAX"
  shows "(\<exists>j. freetotal fl' = 200 * 2 ^ j) \<and> freetotal fl' \<le> max 200 (2 * int (stack_peak ops [])) \<and>
    int (length (vec_freeconn fl')) = freetotal fl' \<and> 0 \<le> freecurr fl' \<and> freecurr fl' \<le> freetotal fl'"
proof -
  have start: "freetotal (InitFreeConns fl) = 200" by (simp add: InitFreeConns_def)
  have "doubled (freetotal (InitFreeConns fl))" by (simp only: start doubled_simps)
  with pool_run_size [OF _ _ assms(1)] start
  have size: "doubled (freetotal fl')" "freetotal fl' \<le> max 200 (2 * int (stack_peak ops []))" by simp_all
  have "pool_inv fl'" using fp.run_refines [of "InitFreeConns fl" ops] assms by simp
  with size show ?thesis by (auto simp: doubled_def pool_inv_def)
qed

theorem pool_size_bound_witness:
  "\<exists>out fl'. pool_run GetConnFromFreelist AddConnToFreelist [Put 5, Put 9, Get] (InitFreeConns static_freelist) = Inr (out, fl') \<and>
     freetotal fl' \<le> 200"
proof -
  have len: "length [Put 5, Put 9, Get] \<le> POOL_MAX" by (simp add: POOL_MAX_def)
  then obtain fl' out where run: "pool_run GetConnFromFreelist AddConnToFreelist [Put 5, Put 9, Get] (InitFreeConns static_freelist) =
      Inr (out, fl')"
    using fp.run_refines [of "InitFreeConns static_freelist" "[Put 5, Put 9, Get]"] by auto
  from pool_size_bound [OF run len] have "freetotal fl' \<le> 200" by simp
  with run show ?thesis by blast
qed

end
