(* ===== verification/SocketWrapper.thy ===== *)
theory SocketWrapper
  imports CxxString
begin

section \<open>socket_wrapper.h: writing a whole buffer and small socket helpers\<close>

text \<open>
  The kernel is outside the program: what successive \<open>write\<close> calls return is a list
  \<open>write_res list\<close>, an argument of the model, one element per call.  \<open>write_loop\<close> is the
  loop of \<open>WriteSfd\<close>; it spends one element per iteration, so a list that ends before
  the loop does stands for a call that has not returned yet (\<open>None\<close>).  The bytes that
  the kernel took are collected in \<open>sent\<close>.  \<open>inet_ntoa\<close> writes the four bytes of an
  address in network order as dotted decimal text.
\<close>

datatype errno = EINTR | EAGAIN | EOther int

datatype write_res = Wrote nat | WriteErr errno

fun write_loop ::
  "string \<Rightarrow> int \<Rightarrow> int \<Rightarrow> write_res list \<Rightarrow> string \<Rightarrow> (bool \<times> string) option" where
  "write_loop buf buf_len write_len ws sent =
     (if write_len < buf_len
      then (case ws of
              [] \<Rightarrow> None
            | r # ws' \<Rightarrow>
                (case r of
                   WriteErr EINTR \<Rightarrow> write_loop buf buf_len write_len ws' sent
                 | WriteErr EAGAIN \<Rightarrow> write_loop buf buf_len write_len ws' sent
                 | WriteErr (EOther e) \<Rightarrow> Some (False, sent)
                 | Wrote n \<Rightarrow>
                     write_loop buf buf_len (write_len + int n) ws'
                       (sent @ take n (drop (nat write_len) buf))))
      else Some (True, sent))"

declare write_loop.simps [simp del]

lemma write_loop_simps [simp]:
  "len \<le> k \<Longrightarrow> write_loop buf len k ws sent = Some (True, sent)"
  "k < len \<Longrightarrow> write_loop buf len k [] sent = None"
  "k < len \<Longrightarrow> write_loop buf len k (WriteErr EINTR # ws) sent = write_loop buf len k ws sent"
  "k < len \<Longrightarrow> write_loop buf len k (WriteErr EAGAIN # ws) sent = write_loop buf len k ws sent"
  "k < len \<Longrightarrow> write_loop buf len k (WriteErr (EOther e) # ws) sent = Some (False, sent)"
  "k < len \<Longrightarrow> write_loop buf len k (Wrote n # ws) sent =
     write_loop buf len (k + int n) ws (sent @ take n (drop (nat k) buf))"
  by (subst write_loop.simps, simp)+

definition WriteSfd :: "string \<Rightarrow> int \<Rightarrow> write_res list \<Rightarrow> (bool \<times> string) option" where
  "WriteSfd buf buf_len ws = write_loop buf buf_len 0 ws []"

text \<open>\<open>fcntl\<close> is a parameter: what \<open>F_GETFL\<close> returns and what \<open>F_SETFL\<close> answers.\<close>

definition O_NONBLOCK :: int where
  "O_NONBLOCK = 2048"

definition SetSocketNoBlock :: "int \<Rightarrow> (int \<Rightarrow> int) \<Rightarrow> bool" where
  "SetSocketNoBlock getfl setfl =
     (if getfl = - 1 then False
      else if setfl (or getfl O_NONBLOCK) = - 1 then False
      else True)"

definition CloseSocket :: "int \<Rightarrow> (int \<Rightarrow> int) \<Rightarrow> bool" where
  "CloseSocket sock_fd close_res =
     (if sock_fd < 0 then True else if close_res sock_fd < 0 then False else True)"

type_synonym in_addr = "8 word \<times> 8 word \<times> 8 word \<times> 8 word"

definition octet :: "8 word \<Rightarrow> string" where
  "octet w = nat_digits (unat w)"

definition inet_ntoa :: "in_addr \<Rightarrow> string" where
  "inet_ntoa a =
     (case a of (b0, b1, b2, b3) \<Rightarrow> octet b0 @ ''.'' @ octet b1 @ ''.'' @ octet b2 @ ''.'' @ octet b3)"

definition GetHostPort :: "16 word \<Rightarrow> int" where
  "GetHostPort sin_port = uint (or (push_bit 8 sin_port) (drop_bit 8 sin_port))"

definition GetHostAddr :: "in_addr \<Rightarrow> string" where
  "GetHostAddr a = inet_ntoa a"

lemma nat_digits_length3: "n < 1000 \<Longrightarrow> length (nat_digits n) \<le> 3"
  by (cases "n < 10"; cases "n < 100") (simp_all add: nat_digits_unfold)

lemma length_octet: "length (octet w) \<le> 3"
proof -
  have "unat w < 1000" using unsigned_less [where 'a = nat, of w] by simp
  then show ?thesis unfolding octet_def by (rule nat_digits_length3)
qed

lemma length_inet_ntoa: "length (inet_ntoa a) \<le> 15"
proof -
  obtain b0 b1 b2 b3 where a: "a = (b0, b1, b2, b3)" by (cases a)
  show ?thesis
    using length_octet [of b0] length_octet [of b1] length_octet [of b2] length_octet [of b3]
    by (simp add: a inet_ntoa_def)
qed

text \<open>Where the bytes already written end, the loop goes on with the rest of the buffer.\<close>

lemma write_loop_result:
  assumes "write_loop buf (int (length buf)) (int k) ws (take k buf) = Some (ok, out)" and "k \<le> length buf"
  shows "if ok then out = buf else \<exists>m<length buf. out = take m buf"
  using assms
proof (induction ws arbitrary: k)
  case Nil
  then show ?case by (cases "k < length buf") auto
next
  case (Cons r ws)
  show ?case
  proof (cases "k < length buf")
    case False
    with Cons.prems show ?thesis by simp
  next
    case True
    show ?thesis
    proof (cases r)
      case (WriteErr e)
      with True Cons show ?thesis by (cases e) auto
    next
      case (Wrote n)
      with True Cons.prems(1)
      have run: "write_loop buf (int (length buf)) (int (k + n)) ws (take (k + n) buf) = Some (ok, out)"
        by (simp add: take_add)
      show ?thesis
      proof (cases "k + n \<le> length buf")
        case True
        with Cons.IH run show ?thesis by blast
      next
        case False
        with run show ?thesis by simp
      qed
    qed
  qed
qed

definition retry :: "write_res \<Rightarrow> bool" where
  "retry r \<longleftrightarrow> r = WriteErr EINTR \<or> r = WriteErr EAGAIN"

fun accepted :: "write_res list \<Rightarrow> nat" where
  "accepted [] = 0"
| "accepted (Wrote n # ws) = n + accepted ws"
| "accepted (WriteErr e # ws) = accepted ws"

lemma write_loop_retry:
  "write_loop buf len k ws sent = write_loop buf len k (filter (\<lambda>r. \<not> retry r) ws) sent"
proof (induction ws arbitrary: k sent)
  case Nil
  then show ?case by simp
next
  case (Cons r ws)
  show ?case
  proof (cases "k < len")
    case False
    then show ?thesis by simp
  next
    case True
    show ?thesis
    proof (cases r)
      case (WriteErr e)
      with True Cons show ?thesis by (cases e) (auto simp: retry_def)
    next
      case (Wrote n)
      with True Cons show ?thesis by (simp add: retry_def)
    qed
  qed
qed

lemma write_loop_returns:
  "len \<le> k + int (accepted ws) \<Longrightarrow> write_loop buf len k ws sent \<noteq> None"
proof (induction ws arbitrary: k sent)
  case Nil
  then show ?case by simp
next
  case (Cons r ws)
  show ?case
  proof (cases "k < len")
    case False
    then show ?thesis by simp
  next
    case True
    show ?thesis
    proof (cases r)
      case (WriteErr e)
      with True Cons show ?thesis by (cases e) auto
    next
      case (Wrote n)
      with True Cons show ?thesis by (simp add: algebra_simps)
    qed
  qed
qed

lemma write_eagain: "0 < len \<Longrightarrow> WriteSfd buf len (replicate n (WriteErr EAGAIN)) = None"
  by (induction n) (simp_all add: WriteSfd_def)

subsection \<open>Properties\<close>

text \<open>
  When \<open>WriteSfd\<close> is called with a buffer and its length and returns true, the bytes
  the kernel took are the buffer, each byte once and in order, however the kernel split
  them over calls; when it returns false, they are a proper prefix.
\<close>

theorem WriteSfd_complete:
  assumes "WriteSfd buf (int (length buf)) ws = Some (ok, out)"
  shows "if ok then out = buf else \<exists>m<length buf. out = take m buf"
  using write_loop_result [of buf 0 ws ok out] assms by (simp add: WriteSfd_def)

theorem WriteSfd_complete_witness:
  "WriteSfd ''f0:ok'' 5 [WriteErr EAGAIN, Wrote 2, WriteErr EINTR, Wrote 3] = Some (True, ''f0:ok'')"
proof -
  have run: "WriteSfd ''f0:ok'' (int (length ''f0:ok''))
      [WriteErr EAGAIN, Wrote 2, WriteErr EINTR, Wrote 3] = Some (True, ''f0:ok'')"
    by (simp add: WriteSfd_def)
  from WriteSfd_complete [OF run] run show ?thesis by simp
qed

text \<open>
  The interruptions \<open>EINTR\<close> and \<open>EAGAIN\<close> never change the result of \<open>WriteSfd\<close>, the
  call returns as soon as the kernel has accepted as many bytes as the buffer has, and a
  kernel that only answers \<open>EAGAIN\<close> keeps it in the loop for any number of calls.
\<close>

theorem WriteSfd_retries:
  "WriteSfd buf len ws = WriteSfd buf len (filter (\<lambda>r. \<not> retry r) ws) \<and>
   (WriteSfd buf len ws = None \<longrightarrow> int (accepted ws) < len) \<and>
   (0 < len \<longrightarrow> WriteSfd buf len (replicate n (WriteErr EAGAIN)) = None)"
proof -
  have "int (accepted ws) < len" if "WriteSfd buf len ws = None"
    using write_loop_returns [of len 0 ws buf "[]"] that
    by (cases "int (accepted ws) < len") (simp_all add: WriteSfd_def)
  moreover note write_eagain [of len buf n]
  moreover have "WriteSfd buf len ws = WriteSfd buf len (filter (\<lambda>r. \<not> retry r) ws)"
    unfolding WriteSfd_def by (rule write_loop_retry)
  ultimately show ?thesis by blast
qed

theorem WriteSfd_retries_witness:
  "WriteSfd ''e2'' 2 (replicate 9 (WriteErr EAGAIN)) = None \<and> int (accepted (replicate 9 (WriteErr EAGAIN))) < 2"
proof -
  have "WriteSfd ''e2'' 2 (replicate 9 (WriteErr EAGAIN)) = None"
    using WriteSfd_retries [of "''e2''" 2 "[]" 9] by simp
  then show ?thesis
    using WriteSfd_retries [of "''e2''" 2 "replicate 9 (WriteErr EAGAIN)" 0] by blast
qed

end
