(* ===== verification/PrinterToMySQL.thy ===== *)
theory PrinterToMySQL
  imports CxxString
begin

section \<open>printertomysql.cpp: the database client\<close>

text \<open>
  The MySQL client library is outside the program.  It is a record \<open>mysql_api\<close> of the
  functions that the class calls, over an arbitrary type \<open>'db\<close> of handle and server
  state; every operation of \<open>PrinterToMySQL\<close> takes it as an argument.  A result set is the
  list of rows that \<open>mysql_fetch_row\<close> yields until NULL, a row the array of its columns, a
  column a C string or NULL.  Log output is left out.
\<close>

record 'db mysql_api =
  mysql_init :: "'db \<Rightarrow> bool \<times> 'db"
  mysql_options :: "string \<Rightarrow> 'db \<Rightarrow> 'db"
  mysql_real_connect :: "string \<Rightarrow> string \<Rightarrow> string \<Rightarrow> string \<Rightarrow> nat \<Rightarrow> 'db \<Rightarrow> bool \<times> 'db"
  mysql_set_character_set :: "string \<Rightarrow> 'db \<Rightarrow> int \<times> 'db"
  mysql_query :: "string \<Rightarrow> 'db \<Rightarrow> int \<times> 'db"
  mysql_store_result :: "'db \<Rightarrow> string option list list option \<times> 'db"
  mysql_close :: "'db \<Rightarrow> 'db"

definition InitMySQL :: "'db mysql_api \<Rightarrow> 'db \<Rightarrow> int \<times> 'db" where
  "InitMySQL api db = (case mysql_init api db of (nonnull, db') \<Rightarrow> if nonnull then (0, db') else (1, db'))"

text \<open>The port and character set arguments are not used by the code.\<close>

definition ConnMySQL ::
  "'db mysql_api \<Rightarrow> string \<Rightarrow> string \<Rightarrow> string \<Rightarrow> string \<Rightarrow> string \<Rightarrow> string \<Rightarrow> 'db \<Rightarrow> int \<times> 'db" where
  "ConnMySQL api host port Db user passwd charset db =
     (let db1 = mysql_options api ''gbk'' db
      in case mysql_real_connect api host user passwd Db 0 db1 of (nonnull, db2) \<Rightarrow>
           if \<not> nonnull then (1, db2)
           else case mysql_set_character_set api ''GBK'' db2 of (rc, db3) \<Rightarrow>
             if rc \<noteq> 0 then (1, db3) else (0, db3))"

definition RG :: char where
  "RG = CHR 0x06"

definition CG :: char where
  "CG = CHR 0x05"

fun row_text :: "nat \<Rightarrow> string option list \<Rightarrow> string outcome" where
  "row_text 0 m_row = Inr []"
| "row_text (Suc n) [] = Inl OutOfBoundsRead"
| "row_text (Suc n) (None # cols) = Inl NullDereference"
| "row_text (Suc n) (Some f # cols) = bindE (row_text n cols) (\<lambda>s. Inr (c_str f @ RG # s))"

fun rows_text :: "nat \<Rightarrow> string option list list \<Rightarrow> string outcome" where
  "rows_text Cnum [] = Inr []"
| "rows_text Cnum (m_row # rows) =
     bindE (row_text Cnum m_row) (\<lambda>s. bindE (rows_text Cnum rows) (\<lambda>t. Inr (s @ CG # t)))"

definition SelectData :: "'db mysql_api \<Rightarrow> string \<Rightarrow> nat \<Rightarrow> 'db \<Rightarrow> (string \<times> 'db) outcome" where
  "SelectData api SQL Cnum db =
     bindE (sprintf_buf 2048 (c_str SQL)) (\<lambda>sql.
       case mysql_query api sql db of (rc, db1) \<Rightarrow>
         if rc \<noteq> 0 then Inr ('''', db1)
         else case mysql_store_result api db1 of (m_res, db2) \<Rightarrow>
           (case m_res of
              None \<Rightarrow> Inr ('''', db2)
            | Some rows \<Rightarrow> bindE (rows_text Cnum rows) (\<lambda>str. Inr (str, db2))))"

definition InsertData :: "'db mysql_api \<Rightarrow> string \<Rightarrow> 'db \<Rightarrow> (int \<times> 'db) outcome" where
  "InsertData api SQL db =
     bindE (sprintf_buf 2048 (c_str SQL)) (\<lambda>sql.
       case mysql_query api (c_str SQL) db of (rc, db1) \<Rightarrow> if rc \<noteq> 0 then Inr (1, db1) else Inr (0, db1))"

definition UpdateData :: "'db mysql_api \<Rightarrow> string \<Rightarrow> 'db \<Rightarrow> (int \<times> 'db) outcome" where
  "UpdateData api SQL db =
     bindE (sprintf_buf 2048 (c_str SQL)) (\<lambda>sql.
       case mysql_query api sql db of (rc, db1) \<Rightarrow> if rc \<noteq> 0 then Inr (1, db1) else Inr (0, db1))"

definition DeleteData :: "'db mysql_api \<Rightarrow> string \<Rightarrow> 'db \<Rightarrow> (int \<times> 'db) outcome" where
  "DeleteData api SQL db =
     bindE (sprintf_buf 2048 (c_str SQL)) (\<lambda>sql.
       case mysql_query api sql db of (rc, db1) \<Rightarrow> if rc \<noteq> 0 then Inr (1, db1) else Inr (0, db1))"

definition CloseMySQLConn :: "'db mysql_api \<Rightarrow> 'db \<Rightarrow> 'db" where
  "CloseMySQLConn api db = mysql_close api db"

subsection \<open>The layout of a result text\<close>

definition field_ok :: "string \<Rightarrow> bool" where
  "field_ok f \<longleftrightarrow> NUL \<notin> set f \<and> RG \<notin> set f \<and> CG \<notin> set f"

definition row_layout :: "string list \<Rightarrow> string" where
  "row_layout fs = concat (map (\<lambda>f. f @ [RG]) fs) @ [CG]"

lemma row_layout_simps: "row_layout [] = [CG]" "row_layout (f # fs) = f @ RG # row_layout fs"
  by (simp_all add: row_layout_def)

lemma row_text_layout:
  "list_all (\<lambda>f. NUL \<notin> set f) fs \<Longrightarrow> row_text (length fs) (map Some fs) = Inr (concat (map (\<lambda>f. f @ [RG]) fs))"
  by (induction fs) (auto simp: c_str_id)

lemma rows_text_layout:
  "list_all (\<lambda>fs. length fs = n \<and> list_all (\<lambda>f. NUL \<notin> set f) fs) rows \<Longrightarrow>
     rows_text n (map (map Some) rows) = Inr (concat (map row_layout rows))"
proof (induction rows)
  case Nil
  then show ?case by simp
next
  case (Cons fs rows)
  then show ?case using row_text_layout [of fs] by (auto simp: row_layout_def)
qed

lemma row_text_last:
  "row_text (Suc n) m_row = Inr s \<Longrightarrow> \<exists>u. s = u @ [RG]"
proof (induction n arbitrary: m_row s)
  case 0
  then show ?case by (cases m_row rule: list.exhaust; cases "hd m_row") auto
next
  case (Suc n)
  then obtain f fs t where "m_row = Some f # fs" "row_text (Suc n) fs = Inr t" "s = c_str f @ RG # t"
    by (cases m_row rule: list.exhaust; cases "hd m_row") auto
  with Suc.IH [of fs t] show ?case by auto
qed

subsection \<open>Properties\<close>

text \<open>
  The text of a result set with \<open>n\<close> columns: every column value is followed by the
  byte 6 and every row by the byte 5, so the rows are recovered by cutting at 5 and the
  columns by cutting at 6.  (The header comment says that rows are separated by 6 and
  columns by 5.)
\<close>

theorem SelectData_layout:
  assumes "mysql_query api (c_str SQL) db = (0, db1)"
    and "mysql_store_result api db1 = (Some (map (map Some) rows), db2)"
    and "list_all (\<lambda>fs. length fs = n \<and> list_all field_ok fs) rows"
    and "length (c_str SQL) < 2048"
  shows "SelectData api SQL n db = Inr (concat (map row_layout rows), db2)"
proof -
  have "list_all (\<lambda>fs. length fs = n \<and> list_all (\<lambda>f. NUL \<notin> set f) fs) rows"
    using assms(3) by (auto simp: list_all_iff field_ok_def)
  then show ?thesis
    using assms by (simp add: SelectData_def sprintf_buf_def rows_text_layout)
qed

theorem SelectData_layout_witness:
  "\<exists>(api :: unit mysql_api) SQL. SelectData api SQL 3 () =
     Inr (''1'' @ [CHR 0x06] @ ''bob'' @ [CHR 0x06] @ ''pw'' @ [CHR 0x06, CHR 0x05], ())"
proof -
  define api :: "unit mysql_api" where
    "api = \<lparr>mysql_init = \<lambda>_. (True, ()), mysql_options = \<lambda>_ _. (),
            mysql_real_connect = \<lambda>_ _ _ _ _ _. (True, ()),
            mysql_set_character_set = \<lambda>_ _. (0, ()), mysql_query = \<lambda>_ _. (0, ()),
            mysql_store_result = \<lambda>_. (Some (map (map Some) [[''1'', ''bob'', ''pw'']]), ()),
            mysql_close = \<lambda>_. ()\<rparr>"
  have "SelectData api ''q'' 3 () = Inr (concat (map row_layout [[''1'', ''bob'', ''pw'']]), ())"
    by (rule SelectData_layout [of api "''q''" "()" "()"])
      (simp_all add: api_def c_str_def NUL_def field_ok_def RG_def CG_def)
  then show ?thesis by (auto simp: row_layout_def RG_def CG_def)
qed

text \<open>
  The error answers of the class: a failed query or a missing result set is the
  empty text, a NULL column is a null pointer dereference and a row shorter than the
  requested number of columns an out of bounds read, and every modification reports 0
  exactly when the server accepted the statement that it was given.
\<close>

theorem PrinterToMySQL_errors:
  assumes "length (c_str SQL) < 2048"
  shows "(fst (mysql_query api (c_str SQL) db) \<noteq> 0 \<longrightarrow>
            SelectData api SQL n db = Inr ('''', snd (mysql_query api (c_str SQL) db))) \<and>
         (mysql_query api (c_str SQL) db = (0, db1) \<longrightarrow> mysql_store_result api db1 = (None, db2) \<longrightarrow>
            SelectData api SQL n db = Inr ('''', db2)) \<and>
         (mysql_query api (c_str SQL) db = (0, db1) \<longrightarrow>
            mysql_store_result api db1 = (Some [map Some (take k fs) @ [None]], db2) \<longrightarrow> k \<le> length fs \<longrightarrow> k < n \<longrightarrow>
            SelectData api SQL n db = Inl NullDereference) \<and>
         (mysql_query api (c_str SQL) db = (0, db1) \<longrightarrow>
            mysql_store_result api db1 = (Some [map Some fs], db2) \<longrightarrow> length fs < n \<longrightarrow>
            SelectData api SQL n db = Inl OutOfBoundsRead) \<and>
         (\<exists>rc. (rc = 0 \<longleftrightarrow> fst (mysql_query api (c_str SQL) db) = 0) \<and>
            InsertData api SQL db = Inr (rc, snd (mysql_query api (c_str SQL) db)) \<and>
            UpdateData api SQL db = Inr (rc, snd (mysql_query api (c_str SQL) db)) \<and>
            DeleteData api SQL db = Inr (rc, snd (mysql_query api (c_str SQL) db)))"
proof -
  have null: "row_text n (map Some fs @ [None]) = Inl NullDereference" if "length fs < n" for n fs
    using that by (induction n "map Some fs @ [None]" arbitrary: fs rule: row_text.induct)
      (auto simp: Cons_eq_append_conv Cons_eq_map_conv)
  have short: "row_text n (map Some fs) = Inl OutOfBoundsRead" if "length fs < n" for n fs
    using that by (induction n "map Some fs" arbitrary: fs rule: row_text.induct)
      (auto simp: Cons_eq_map_conv)
  show ?thesis
    using assms null [of "take k fs" n] short [of fs n]
    by (cases "mysql_query api (c_str SQL) db")
      (auto simp: SelectData_def InsertData_def UpdateData_def DeleteData_def sprintf_buf_def)
qed

theorem PrinterToMySQL_errors_witness:
  "\<exists>(api :: unit mysql_api) SQL. SelectData api SQL 3 () = Inl NullDereference"
proof -
  define api :: "unit mysql_api" where
    "api = \<lparr>mysql_init = \<lambda>_. (True, ()), mysql_options = \<lambda>_ _. (),
            mysql_real_connect = \<lambda>_ _ _ _ _ _. (True, ()),
            mysql_set_character_set = \<lambda>_ _. (0, ()), mysql_query = \<lambda>_ _. (0, ()),
            mysql_store_result = \<lambda>_. (Some [[Some ''1'', None]], ()),
            mysql_close = \<lambda>_. ()\<rparr>"
  have "length (c_str ''q'') < 2048" by (simp add: c_str_def)
  from PrinterToMySQL_errors [OF this, of api "()" 3 "()" "()" 1 "[''1'']"]
  have "SelectData api ''q'' 3 () = Inl NullDereference"
    by (simp add: api_def)
  then show ?thesis by blast
qed

end
