(* ===== verification/Connection.thy ===== *)
theory Connection
  imports ConnPool
begin

section \<open>worker_threads.cc: connection objects, their creation and their end\<close>

text \<open>
  A \<open>conn_store\<close> is what the worker threads share about connections: the heap of
  \<open>CONN\<close> objects, the pool of objects of closed connections, and the live bufferevents of
  libevent, each with the callback argument (the address of its \<open>CONN\<close>) and the read
  timeout it was given.  The fields \<open>client\<close> (unused, its code is disabled) and the list
  node data are left out.  The allocator and libevent are parameters: \<open>alloc_env\<close> says what
  the calls of one \<open>InitNewConn\<close> return.  \<open>new CONN\<close> does not initialise the object, so its
  fields start as whatever the memory held, the record \<open>junk\<close>; a buffer pointer read from
  such memory is null or owns nothing (\<open>Dangling\<close>).
\<close>

datatype cptr = NullPtr | Dangling | Alloc string

record CONN =
  sfd :: int
  rBuf :: cptr
  rlen :: int
  wBuf :: cptr
  wlen :: int
  isVerify :: bool
  conn_thread :: nat

record bufev =
  cbarg :: addr
  read_timeout :: int

record conn_store =
  heap :: "addr \<rightharpoonup> CONN"
  pool :: freelist
  live :: "nat \<rightharpoonup> bufev"

record alloc_env =
  new_conn :: "addr option"
  junk :: CONN
  new_rBuf :: "string option"
  new_wBuf :: "string option"
  new_bev :: "nat option"
  heartbeat :: int

definition DATA_BUFFER_SIZE :: int where
  "DATA_BUFFER_SIZE = 2048"

definition SafeDeleteArray :: "cptr \<Rightarrow> cptr outcome" where
  "SafeDeleteArray p =
     (case p of NullPtr \<Rightarrow> Inr NullPtr | Dangling \<Rightarrow> Inl InvalidFree | Alloc _ \<Rightarrow> Inr NullPtr)"

definition FreeConn :: "addr option \<Rightarrow> conn_store \<Rightarrow> conn_store outcome" where
  "FreeConn conn st =
     (case conn of
        None \<Rightarrow> Inr st
      | Some a \<Rightarrow>
          (case heap st a of
             None \<Rightarrow> Inl UseAfterFree
           | Some c \<Rightarrow>
               bindE (SafeDeleteArray (rBuf c)) (\<lambda>_.
               bindE (SafeDeleteArray (wBuf c)) (\<lambda>_.
                 Inr (st\<lparr>heap := (heap st)(a := None)\<rparr>)))))"

text \<open>\<open>bufferevent_free\<close> ends the callbacks of the bufferevent and closes its socket.\<close>

definition CloseConn :: "addr \<Rightarrow> nat \<Rightarrow> conn_store \<Rightarrow> conn_store outcome" where
  "CloseConn conn bev st =
     (let st1 = st\<lparr>live := (live st)(bev := None)\<rparr>
      in bindE (AddConnToFreelist conn (pool st1)) (\<lambda>(ok, p).
           let st2 = st1\<lparr>pool := p\<rparr>
           in if \<not> ok then FreeConn (Some conn) st2 else Inr st2))"

text \<open>Time out, end of file and error only differ in what they log.\<close>

datatype bev_event = EvTimeout | EvEof | EvError | EvOther

definition ClientTcpErrorCb :: "nat \<Rightarrow> bev_event \<Rightarrow> addr \<Rightarrow> conn_store \<Rightarrow> conn_store outcome" where
  "ClientTcpErrorCb bev event conn st = CloseConn conn bev st"

text \<open>The first half of \<open>InitNewConn\<close>: an object from the pool, or a new one with its buffers.\<close>

definition obtain_conn :: "alloc_env \<Rightarrow> conn_store \<Rightarrow> (addr option \<times> conn_store) outcome" where
  "obtain_conn env st =
     bindE (GetConnFromFreelist (pool st)) (\<lambda>(c, p).
       let st1 = st\<lparr>pool := p\<rparr>
       in case c of
            Some a \<Rightarrow> Inr (Some a, st1)
          | None \<Rightarrow>
              (case new_conn env of
                 None \<Rightarrow> Inl BadAlloc
               | Some a \<Rightarrow>
                   (case new_rBuf env of
                      None \<Rightarrow>
                        bindE (FreeConn (Some a) (st1\<lparr>heap := (heap st1)(a \<mapsto> junk env)\<rparr>))
                          (\<lambda>st2. Inr (None, st2))
                    | Some r \<Rightarrow>
                        (case new_wBuf env of
                           None \<Rightarrow>
                             bindE (FreeConn (Some a)
                                 (st1\<lparr>heap := (heap st1)(a \<mapsto> (junk env)\<lparr>rBuf := Alloc r\<rparr>)\<rparr>))
                               (\<lambda>st2. Inr (None, st2))
                         | Some w \<Rightarrow>
                             Inr (Some a, st1\<lparr>heap := (heap st1)(a \<mapsto>
                                    (junk env)\<lparr>rBuf := Alloc r, wBuf := Alloc w\<rparr>)\<rparr>)))))"

definition init_fields :: "int \<Rightarrow> nat \<Rightarrow> CONN \<Rightarrow> CONN" where
  "init_fields fd tid c = c\<lparr>sfd := fd, rlen := 0, wlen := 0, conn_thread := tid\<rparr>"

definition InitNewConn :: "alloc_env \<Rightarrow> int \<Rightarrow> nat \<Rightarrow> conn_store \<Rightarrow> (addr option \<times> conn_store) outcome" where
  "InitNewConn env fd tid st =
     bindE (obtain_conn env st) (\<lambda>(conn, st1).
       case conn of
         None \<Rightarrow> Inr (None, st1)
       | Some a \<Rightarrow>
           (case heap st1 a of
              None \<Rightarrow> Inl UseAfterFree
            | Some c \<Rightarrow>
                let st2 = st1\<lparr>heap := (heap st1)(a \<mapsto> init_fields fd tid c)\<rparr>
                in case new_bev env of
                     None \<Rightarrow>
                       bindE (AddConnToFreelist a (pool st2)) (\<lambda>(ok, p).
                         let st3 = st2\<lparr>pool := p\<rparr>
                         in if \<not> ok then bindE (FreeConn (Some a) st3) (\<lambda>st4. Inr (None, st4))
                            else Inr (None, st3))
                   | Some b \<Rightarrow>
                       Inr (Some a, st2\<lparr>live := (live st2)(b \<mapsto>
                              \<lparr>cbarg = a, read_timeout = heartbeat env\<rparr>)\<rparr>)))"

subsection \<open>Ownership\<close>

text \<open>
  Every \<open>CONN\<close> object is in the pool at most once, belongs to at most one live
  bufferevent, never to both, and has both its buffers.
\<close>

definition store_inv :: "conn_store \<Rightarrow> bool" where
  "store_inv st \<longleftrightarrow>
     pool_inv (pool st) \<and> distinct (pool_stack (pool st)) \<and>
     set (pool_stack (pool st)) \<subseteq> dom (heap st) \<and>
     (\<forall>b x. live st b = Some x \<longrightarrow> cbarg x \<in> dom (heap st) - set (pool_stack (pool st))) \<and>
     (\<forall>b b' x x'. live st b = Some x \<longrightarrow> live st b' = Some x' \<longrightarrow> cbarg x = cbarg x' \<longrightarrow> b = b') \<and>
     (\<forall>a c. heap st a = Some c \<longrightarrow> (\<exists>r w. rBuf c = Alloc r \<and> wBuf c = Alloc w))"

text \<open>What the allocator and libevent guarantee: a new object or bufferevent is not one in use.\<close>

definition fresh_env :: "alloc_env \<Rightarrow> conn_store \<Rightarrow> bool" where
  "fresh_env env st \<longleftrightarrow>
     (\<forall>a. new_conn env = Some a \<longrightarrow> heap st a = None) \<and> (\<forall>b. new_bev env = Some b \<longrightarrow> live st b = None)"

definition start_store :: "freelist \<Rightarrow> conn_store" where
  "start_store fl = \<lparr>heap = (\<lambda>_. None), pool = InitFreeConns fl, live = (\<lambda>_. None)\<rparr>"

lemma start_store_inv [simp]: "store_inv (start_store fl)"
  by (simp add: store_inv_def start_store_def)

lemma start_store_simps [simp]:
  "heap (start_store fl) = (\<lambda>_. None)"
  "live (start_store fl) = (\<lambda>_. None)"
  "pool (start_store fl) = InitFreeConns fl"
  by (simp_all add: start_store_def)

lemma CloseConn_result:
  assumes "store_inv st" and "live st bev = Some x" and "cbarg x = conn" and "CloseConn conn bev st = Inr st'"
  shows "store_inv st' \<and> heap st' = heap st \<and> live st' = (live st)(bev := None) \<and>
    pool_stack (pool st') = conn # pool_stack (pool st)"
proof -
  obtain ok p where add: "AddConnToFreelist conn (pool st) = Inr (ok, p)"
    using assms(4) by (auto simp: CloseConn_def Let_def)
  from assms(1) have "pool_inv (pool st)" by (simp add: store_inv_def)
  from fp.put_result [OF this add]
  have p: "ok" "pool_inv p" "pool_stack p = conn # pool_stack (pool st)" by auto
  have st': "st' = st\<lparr>live := (live st)(bev := None), pool := p\<rparr>"
    using assms(4) add p by (simp add: CloseConn_def Let_def)
  have owner: "conn \<in> dom (heap st) - set (pool_stack (pool st))"
    using assms by (auto simp: store_inv_def)
  have others: "cbarg y \<noteq> conn" if "live st b = Some y" "b \<noteq> bev" for b y
    using assms that unfolding store_inv_def by metis
  show ?thesis
    using assms(1) owner others p unfolding st' store_inv_def by (auto split: if_splits)
qed

lemma obtain_conn_result:
  assumes inv: "store_inv st" and fresh: "fresh_env env st" and got: "obtain_conn env st = Inr (Some a, st1)"
  shows "store_inv st1 \<and> live st1 = live st \<and> a \<in> dom (heap st1) - set (pool_stack (pool st1)) \<and>
    (\<forall>b x. live st1 b = Some x \<longrightarrow> cbarg x \<noteq> a) \<and>
    ((pool_stack (pool st) = a # pool_stack (pool st1) \<and> heap st1 = heap st) \<or>
     (pool_stack (pool st) = [] \<and> pool_stack (pool st1) = [] \<and> new_conn env = Some a \<and>
       (\<exists>r w. heap st1 = (heap st)(a \<mapsto> (junk env)\<lparr>rBuf := Alloc r, wBuf := Alloc w\<rparr>))))"
proof -
  have pinv: "pool_inv (pool st)" using inv by (simp add: store_inv_def)
  from got obtain c p where get: "GetConnFromFreelist (pool st) = Inr (c, p)"
    by (auto simp: obtain_conn_def)
  note res = fp.get_result [OF pinv get]
  show ?thesis
  proof (cases c)
    case (Some a')
    then have st1: "a' = a" "st1 = st\<lparr>pool := p\<rparr>"
      using got get by (auto simp: obtain_conn_def Let_def)
    with res Some have st: "pool_stack (pool st) = a # pool_stack p" "pool_inv p" by auto
    then show ?thesis
      using inv unfolding st1 store_inv_def by auto
  next
    case None
    with got get obtain r w where st1: "st1 = st\<lparr>pool := p, heap := (heap st)(a \<mapsto>
        (junk env)\<lparr>rBuf := Alloc r, wBuf := Alloc w\<rparr>)\<rparr>" and new: "new_conn env = Some a"
      by (auto simp: obtain_conn_def Let_def split: option.splits)
    from fresh new have unused: "heap st a = None" by (simp add: fresh_env_def)
    from res None have st: "pool_stack (pool st) = []" "pool_stack p = []" "pool_inv p" by auto
    have notlive: "cbarg x \<noteq> a" if "live st b = Some x" for b x
      using inv that unused by (auto simp: store_inv_def)
    show ?thesis
      using inv st new unused notlive unfolding st1 store_inv_def by auto
  qed
qed

text \<open>No object is lost: each one is in the pool or belongs to a live bufferevent.\<close>

definition owned :: "conn_store \<Rightarrow> bool" where
  "owned st \<longleftrightarrow> dom (heap st) = set (pool_stack (pool st)) \<union> cbarg ` ran (live st)"

lemma start_store_owned: "owned (start_store fl)"
  by (simp add: owned_def)

lemma ran_update_fresh: "m b = None \<Longrightarrow> ran (m(b \<mapsto> x)) = insert x (ran m)"
  by (rule ran_map_upd)

lemma CloseConn_owned:
  assumes "store_inv st" and "live st bev = Some x" and "cbarg x = conn" and "CloseConn conn bev st = Inr st'"
    and "owned st"
  shows "owned st'"
proof -
  from CloseConn_result [OF assms(1-4)] have st': "heap st' = heap st" "live st' = (live st)(bev := None)"
    "pool_stack (pool st') = conn # pool_stack (pool st)" by auto
  have "((live st)(bev := None))(bev \<mapsto> x) = live st" using assms(2) by auto
  with ran_update_fresh [of "(live st)(bev := None)" bev x]
  have "cbarg ` ran (live st) = insert conn (cbarg ` ran ((live st)(bev := None)))"
    using assms(3) by simp
  then show ?thesis using assms(5) by (simp add: owned_def st')
qed

lemma InitNewConn_result:
  assumes inv: "store_inv st" and fresh: "fresh_env env st" and run: "InitNewConn env fd tid st = Inr (Some a, st')"
  shows "\<exists>b c. store_inv st' \<and> new_bev env = Some b \<and> live st' = (live st)(b \<mapsto> \<lparr>cbarg = a, read_timeout = heartbeat env\<rparr>) \<and>
    heap st' a = Some (init_fields fd tid c) \<and>
    ((\<exists>ps. pool_stack (pool st) = a # ps \<and> heap st a = Some c) \<or>
     (pool_stack (pool st) = [] \<and> new_conn env = Some a \<and> isVerify c = isVerify (junk env))) \<and>
    (owned st \<longrightarrow> owned st')"
proof -
  from run obtain conn st1 where got': "obtain_conn env st = Inr (conn, st1)"
    by (auto simp: InitNewConn_def)
  with run obtain a' where a': "conn = Some a'"
    by (cases conn) (auto simp: InitNewConn_def)
  with run got' obtain c where c': "heap st1 a' = Some c"
    by (cases "heap st1 a'") (auto simp: InitNewConn_def)
  from run got' a' c' obtain b where b: "new_bev env = Some b"
    by (cases "new_bev env") (auto simp: InitNewConn_def Let_def split: if_splits)
  have got: "obtain_conn env st = Inr (Some a, st1)" and c: "heap st1 a = Some c"
    and st': "st' = st1\<lparr>heap := (heap st1)(a \<mapsto> init_fields fd tid c),
        live := (live st1)(b \<mapsto> \<lparr>cbarg = a, read_timeout = heartbeat env\<rparr>)\<rparr>"
    using run got' a' c' b by (auto simp: InitNewConn_def Let_def)
  note res = obtain_conn_result [OF inv fresh got]
  have other: "cbarg x \<noteq> a" "a \<noteq> cbarg x" if "live st1 b' = Some x" for b' x
    using res that by blast+
  have inv': "store_inv st'"
    using res c unfolding st' store_inv_def by (auto simp: init_fields_def other split: if_splits)
  have "live st1 b = None" using fresh b res by (simp add: fresh_env_def)
  then have "ran (live st') = insert \<lparr>cbarg = a, read_timeout = heartbeat env\<rparr> (ran (live st))"
    using res by (simp add: st' ran_update_fresh)
  moreover have "set (pool_stack (pool st')) \<union> {a} = set (pool_stack (pool st)) \<union> {a}" "dom (heap st') = dom (heap st) \<union> {a}"
    using res c by (auto simp: st')
  ultimately have "owned st \<longrightarrow> owned st'"
    by (auto simp: owned_def)
  then show ?thesis
    by (intro exI [of _ b] exI [of _ c]) (use res b c inv' in \<open>auto simp: st'\<close>)
qed

lemma InitNewConn_recycles:
  assumes "store_inv st" and "pool_stack (pool st) = a # ps" and "heap st a = Some c" and "new_bev env = Some b"
  shows "\<exists>st'. InitNewConn env fd tid st = Inr (Some a, st') \<and> heap st' a = Some (init_fields fd tid c)"
proof -
  from assms(1) have "pool_inv (pool st)" by (simp add: store_inv_def)
  from fp.get_top [OF this assms(2)] obtain p where "GetConnFromFreelist (pool st) = Inr (Some a, p)"
    by blast
  then show ?thesis
    using assms(3,4) by (simp add: InitNewConn_def obtain_conn_def Let_def)
qed

subsection \<open>Properties\<close>

text \<open>
  A connection object taken from the pool keeps the token mark of the connection that
  used it before: \<open>InitNewConn\<close> sets the socket, the lengths and the thread, never
  \<open>isVerify\<close>.  So a connection that is opened right after a verified one was closed starts
  verified, whatever its client sends.
\<close>

theorem InitNewConn_keeps_verification:
  assumes "store_inv st" and "live st bev = Some x" and "heap st (cbarg x) = Some c"
    and "CloseConn (cbarg x) bev st = Inr st1" and "fresh_env env st1" and "new_bev env = Some b"
  shows "\<exists>st2. InitNewConn env fd tid st1 = Inr (Some (cbarg x), st2) \<and>
    map_option isVerify (heap st2 (cbarg x)) = Some (isVerify c)"
proof -
  from CloseConn_result [OF assms(1,2) refl assms(4)]
  have inv: "store_inv st1" and st1: "heap st1 = heap st" "pool_stack (pool st1) = cbarg x # pool_stack (pool st)"
    by auto
  from InitNewConn_recycles [OF inv st1(2) _ assms(6), of c fd tid] st1 assms(3) show ?thesis
    by (auto simp: init_fields_def)
qed

text \<open>
  When the pool is empty and the second buffer cannot be allocated, the error path of
  \<open>InitNewConn\<close> deletes a buffer pointer that was never written: if the memory of the new
  object held a non-null pointer there, that is an invalid \<open>delete[]\<close>; if it held null,
  \<open>InitNewConn\<close> returns NULL and the store is as before.
\<close>

theorem InitNewConn_buffer_failure:
  assumes "store_inv st" and "pool_stack (pool st) = []" and "new_conn env = Some a"
    and "new_rBuf env = Some r" and "new_wBuf env = None" and "heap st a = None"
  shows "(wBuf (junk env) = Dangling \<longrightarrow> InitNewConn env fd tid st = Inl InvalidFree) \<and>
    (wBuf (junk env) = NullPtr \<longrightarrow> InitNewConn env fd tid st = Inr (None, st))"
proof -
  have get: "GetConnFromFreelist (pool st) = Inr (None, pool st)"
    using assms(1,2) by (intro fp.get_empty) (auto simp: store_inv_def)
  have "(heap st)(a := None) = heap st" using assms(6) by auto
  then show ?thesis
    using assms get
    by (simp add: InitNewConn_def obtain_conn_def FreeConn_def SafeDeleteArray_def Let_def)
qed

definition example_conn :: CONN where
  "example_conn = \<lparr>sfd = 0, rBuf = Dangling, rlen = 0, wBuf = Dangling, wlen = 0, isVerify = False, conn_thread = 0\<rparr>"

definition example_env :: alloc_env where
  "example_env = \<lparr>new_conn = Some 1, junk = example_conn, new_rBuf = Some [], new_wBuf = Some [], new_bev = Some 1, heartbeat = 70\<rparr>"

theorem InitNewConn_buffer_failure_witness:
  "InitNewConn (example_env\<lparr>new_wBuf := None\<rparr>) 7 0 (start_store static_freelist) = Inl InvalidFree"
  using InitNewConn_buffer_failure [of "start_store static_freelist" "example_env\<lparr>new_wBuf := None\<rparr>" 1 "[]" 7 0]
  by (simp add: example_env_def example_conn_def)

theorem InitNewConn_keeps_verification_witness:
  "\<exists>st1 st2. InitNewConn (example_env\<lparr>new_bev := Some 2, new_conn := Some 2\<rparr>) 8 0 st1 = Inr (Some 1, st2) \<and>
     map_option isVerify (heap st2 1) = Some True"
proof -
  let ?c = "example_conn\<lparr>rBuf := Alloc [], wBuf := Alloc [], isVerify := True\<rparr>"
  let ?st = "(start_store static_freelist)\<lparr>heap := [1 \<mapsto> ?c], live := [1 \<mapsto> \<lparr>cbarg = 1, read_timeout = 70\<rparr>]\<rparr>"
  have inv: "store_inv ?st"
    by (simp add: store_inv_def)
  obtain p where "AddConnToFreelist 1 (pool ?st) = Inr (True, p)"
    using fp.put_room [of "pool ?st" 1] by (auto simp: POOL_MAX_def)
  then have close: "CloseConn 1 1 ?st = Inr (?st\<lparr>live := (live ?st)(1 := None), pool := p\<rparr>)"
    by (simp add: CloseConn_def)
  let ?env = "example_env\<lparr>new_bev := Some 2, new_conn := Some 2\<rparr>"
  have "\<exists>st2. InitNewConn ?env 8 0 (?st\<lparr>live := (live ?st)(1 := None), pool := p\<rparr>) =
      Inr (Some (cbarg \<lparr>cbarg = 1, read_timeout = 70\<rparr>), st2) \<and>
    map_option isVerify (heap st2 (cbarg \<lparr>cbarg = 1, read_timeout = 70\<rparr>)) = Some (isVerify ?c)"
    by (rule InitNewConn_keeps_verification [where b = 2 and bev = 1, OF inv])
      (use close in \<open>simp_all add: fresh_env_def example_env_def\<close>)
  then show ?thesis by auto
qed

end
