(* ===== verification/CommandHandler.thy ===== *)
theory CommandHandler
  imports Utils SocketWrapper PrinterToMySQL Connection
begin

section \<open>worker_threads.cc: start_routine, the handler of client requests\<close>

text \<open>
  \<open>start_routine\<close> is the read callback of every client connection.  One call takes the
  bytes that one \<open>bufferevent_read\<close> delivered (at most \<open>BUFSIZE\<close>, the argument \<open>chunk\<close>),
  undoes the exclusive or with \<open>0xff\<close>, checks the token of a connection that is not yet
  verified, and executes every complete message of the chunk.  The state of a call is the
  \<open>conn_store\<close> of the connections and an \<open>io\<close> record: the database, and the list of the
  \<open>WriteSfd\<close> calls made so far with their socket and bytes (the code ignores what
  \<open>WriteSfd\<close> returns).  \<open>peer\<close> is what \<open>getpeername\<close> leaves in \<open>addr_in.sin_addr\<close>.
  The cases of the switch are one definition each; syslog output is left out.
\<close>

definition BUFSIZE :: nat where
  "BUFSIZE = 1024"

definition TOKEN_LENGTH :: nat where
  "TOKEN_LENGTH = 5"

definition TOKEN_STR :: string where
  "TOKEN_STR = ''12345''"

definition KEY :: char where
  "KEY = CHR 0xFF"

definition xor_text :: "string \<Rightarrow> string" where
  "xor_text s = map (\<lambda>c. xor_char c KEY) s"

record 'db io =
  dbs :: 'db
  wire :: "(int \<times> string) list"

definition reply :: "int \<Rightarrow> string \<Rightarrow> 'db io \<Rightarrow> 'db io" where
  "reply fd str s = s\<lparr>wire := wire s @ [(fd, xor_text str)]\<rparr>"

subsection \<open>The SQL texts\<close>

definition quoted :: "string \<Rightarrow> string" where
  "quoted s = CHR 0x27 # c_str s @ [CHR 0x27]"

definition sql_insert_device :: "string \<Rightarrow> string \<Rightarrow> string \<Rightarrow> string \<Rightarrow> string" where
  "sql_insert_device name device_id p2p_id ip =
     ''insert delayed into device_info(name,device_id,p2p_id,ip_address) values('' @
     quoted name @ '','' @ quoted device_id @ '','' @ quoted p2p_id @ '','' @ quoted ip @ '')''"

definition sql_find_user :: "string \<Rightarrow> string" where
  "sql_find_user name = ''SELECT * FROM user_info where name = '' @ quoted name"

definition sql_insert_user :: "string \<Rightarrow> string \<Rightarrow> string" where
  "sql_insert_user name passwd =
     ''insert delayed into user_info(name,passwd) values('' @ quoted name @ '','' @ quoted passwd @ '')''"

definition sql_select_user :: "string \<Rightarrow> string" where
  "sql_select_user name = ''SELECT * FROM user_info where name='' @ quoted name"

definition sql_update_user :: "string \<Rightarrow> string \<Rightarrow> string" where
  "sql_update_user name passwd =
     ''update user_info set passwd='' @ quoted passwd @ '' where name = '' @ quoted name"

definition sql_delete_user :: "string \<Rightarrow> string" where
  "sql_delete_user id0 = ''delete from user_info where device_id = '' @ quoted id0"

subsection \<open>The cases of the switch\<close>

definition insert_and_reply :: "'db mysql_api \<Rightarrow> int \<Rightarrow> string \<Rightarrow> 'db io \<Rightarrow> 'db io outcome" where
  "insert_and_reply api fd sql s =
     bindE (InsertData api sql (dbs s)) (\<lambda>(rc, db1).
       Inr (reply fd (if rc = 0 then ''f0:ok'' else ''e2:fail'') (s\<lparr>dbs := db1\<rparr>)))"

definition case_INSERT ::
  "'db mysql_api \<Rightarrow> int \<Rightarrow> string \<Rightarrow> string \<Rightarrow> string \<Rightarrow> string \<Rightarrow> string \<Rightarrow> 'db io \<Rightarrow> 'db io outcome" where
  "case_INSERT api fd name passwd device_id p2p_id ip s =
     (if name \<noteq> ''0000'' \<and> device_id \<noteq> ''0000''
      then bindE (sprintf_buf BUFSIZE (sql_insert_device name device_id p2p_id ip)) (\<lambda>sql.
             insert_and_reply api fd sql s)
      else bindE (sprintf_buf BUFSIZE (sql_find_user name)) (\<lambda>sql.
           bindE (SelectData api sql 3 (dbs s)) (\<lambda>(strval, db1).
             let s1 = s\<lparr>dbs := db1\<rparr>
             in if length strval = 0
                then bindE (sprintf_buf BUFSIZE (sql_insert_user name passwd)) (\<lambda>sql.
                       insert_and_reply api fd sql s1)
                else Inr (reply fd ''e1:fail'' s1))))"

text \<open>
  \<open>p += strlen(p) - 3; while(*p != 0x06) p--;\<close>: reading below the start of the text is a
  fault.  Then \<open>p + 1\<close> is copied and its last two bytes are erased.
\<close>

fun walk_back :: "string \<Rightarrow> nat \<Rightarrow> nat outcome" where
  "walk_back p 0 = (if p ! 0 = RG then Inr 0 else Inl BufferUnderrun)"
| "walk_back p (Suc i) = (if p ! Suc i = RG then Inr (Suc i) else walk_back p i)"

definition erase_last :: "string \<Rightarrow> string outcome" where
  "erase_last s = (if s = [] then Inl BufferUnderrun else Inr (butlast s))"

definition stored_passwd :: "string \<Rightarrow> string outcome" where
  "stored_passwd strval =
     (let p = c_str strval
      in if length p < 3 then Inl BufferUnderrun
         else bindE (walk_back p (length p - 3)) (\<lambda>i.
                bindE (erase_last (drop (i + 1) p)) erase_last))"

definition case_SELECT :: "'db mysql_api \<Rightarrow> int \<Rightarrow> string \<Rightarrow> string \<Rightarrow> 'db io \<Rightarrow> 'db io outcome" where
  "case_SELECT api fd name passwd s =
     bindE (sprintf_buf BUFSIZE (sql_select_user name)) (\<lambda>sql.
     bindE (SelectData api sql 3 (dbs s)) (\<lambda>(strval, db1).
       let s1 = s\<lparr>dbs := db1\<rparr>
       in if length strval \<noteq> 0
          then bindE (stored_passwd strval) (\<lambda>new_passwd.
                 Inr (reply fd (if new_passwd \<noteq> c_str passwd then ''e3:fail'' else ''f0:ok'') s1))
          else Inr (reply fd ''e1:fail'' s1)))"

definition case_UPDATE :: "'db mysql_api \<Rightarrow> int \<Rightarrow> string \<Rightarrow> string \<Rightarrow> 'db io \<Rightarrow> 'db io outcome" where
  "case_UPDATE api fd name passwd s =
     bindE (sprintf_buf BUFSIZE (sql_update_user name passwd)) (\<lambda>sql.
     bindE (UpdateData api sql (dbs s)) (\<lambda>(rc, db1).
       Inr (reply fd (if rc = 0 then ''f0:ok'' else ''e3:fail'') (s\<lparr>dbs := db1\<rparr>))))"

text \<open>The variable \<open>id\<close> is never assigned and the reply is disabled.\<close>

definition case_DELETE :: "'db mysql_api \<Rightarrow> 'db io \<Rightarrow> 'db io outcome" where
  "case_DELETE api s =
     bindE (sprintf_buf BUFSIZE (sql_delete_user '''')) (\<lambda>sql.
     bindE (DeleteData api sql (dbs s)) (\<lambda>(rc, db1). Inr (s\<lparr>dbs := db1\<rparr>)))"

definition case_default :: "int \<Rightarrow> 'db io \<Rightarrow> 'db io outcome" where
  "case_default fd s = Inr (reply fd ''e3:fail'' s)"

subsection \<open>One message, all messages, one read\<close>

definition run_command ::
  "'db mysql_api \<Rightarrow> (int \<Rightarrow> in_addr) \<Rightarrow> int \<Rightarrow> string list \<Rightarrow> 'db io \<Rightarrow> 'db io outcome" where
  "run_command api peer fd vec_command s =
     (if length vec_command = 6 \<or> length vec_command = 3
      then let six = (length vec_command = 6);
               command = atoi (vec_command ! 0);
               name = vec_command ! 1;
               passwd = vec_command ! 2;
               device_id = (if six then vec_command ! 3 else '''');
               p2p_id = (if six then vec_command ! 4 else '''');
               ip = (if six then inet_ntoa (peer fd) else '''')
           in if command = 1 then case_INSERT api fd name passwd device_id p2p_id ip s
              else if command = 2 then case_SELECT api fd name passwd s
              else if command = 3 then case_UPDATE api fd name passwd s
              else if command = 4 then case_DELETE api s
              else case_default fd s
      else case_default fd s)"

definition process_message ::
  "'db mysql_api \<Rightarrow> (int \<Rightarrow> in_addr) \<Rightarrow> int \<Rightarrow> string \<Rightarrow> 'db io \<Rightarrow> 'db io outcome" where
  "process_message api peer fd msg s =
     run_command api peer fd (split_tokens SPACE3 (drop TOKEN_LENGTH msg)) s"

fun process_messages ::
  "'db mysql_api \<Rightarrow> (int \<Rightarrow> in_addr) \<Rightarrow> int \<Rightarrow> string list \<Rightarrow> 'db io \<Rightarrow> 'db io outcome" where
  "process_messages api peer fd [] s = Inr s"
| "process_messages api peer fd (m # ms) s =
     bindE (process_message api peer fd m s) (process_messages api peer fd ms)"

definition serve_chunk ::
  "'db mysql_api \<Rightarrow> (int \<Rightarrow> in_addr) \<Rightarrow> int \<Rightarrow> string \<Rightarrow> 'db io \<Rightarrow> 'db io outcome" where
  "serve_chunk api peer fd str_recv s =
     (if FindCRLF str_recv \<and> FindSPACE str_recv
      then process_messages api peer fd (split_tokens CRLF str_recv) s
      else Inr s)"

definition start_routine ::
  "'db mysql_api \<Rightarrow> (int \<Rightarrow> in_addr) \<Rightarrow> nat \<Rightarrow> addr \<Rightarrow> string \<Rightarrow> conn_store \<times> 'db io \<Rightarrow>
   (conn_store \<times> 'db io) outcome" where
  "start_routine api peer bev arg chunk sts =
     (case sts of (st, s) \<Rightarrow>
       (case heap st arg of
          None \<Rightarrow> Inl UseAfterFree
        | Some conn \<Rightarrow>
            let readbuf = xor_text chunk
            in if TOKEN_LENGTH \<le> length readbuf \<and> \<not> isVerify conn
               then let st1 = st\<lparr>heap := (heap st)(arg \<mapsto> conn\<lparr>isVerify := True\<rparr>)\<rparr>
                    in if take TOKEN_LENGTH readbuf \<noteq> TOKEN_STR
                       then bindE (CloseConn arg bev st1) (\<lambda>st2. Inr (st2, s))
                       else bindE (serve_chunk api peer (sfd conn) readbuf s) (\<lambda>s1. Inr (st1, s1))
               else bindE (serve_chunk api peer (sfd conn) readbuf s) (\<lambda>s1. Inr (st, s1))))"

end
