(* ===== verification/HandlerFacts.thy ===== *)
theory HandlerFacts
  imports CommandHandler
begin

section \<open>Facts on requests: framing, faults, replies\<close>

text \<open>
  The lemmas that the properties of \<open>start_routine\<close> rest on: which texts pass the two
  searches, how long the SQL texts are, what the result texts of the database look like,
  and the shape of the replies of every command.
\<close>

subsection \<open>Framing\<close>

lemma xor_text_involution [simp]: "xor_text (xor_text s) = s"
  unfolding xor_text_def by (rule map_xor_involution)

lemma length_xor_text [simp]: "length (xor_text s) = length s"
  by (simp add: xor_text_def)

lemma find_str_nth: "find_str pat s = Some p \<Longrightarrow> i < length pat \<Longrightarrow> s ! (p + i) = pat ! i"
proof -
  assume f: "find_str pat s = Some p" and i: "i < length pat"
  from f have "prefix pat (drop p s)" by (simp add: find_str_Some_iff)
  then obtain r where "drop p s = pat @ r" by (auto simp: prefix_def)
  moreover have "p + i < length s" using find_str_bound [OF f] i by simp
  ultimately show ?thesis using i by (metis add_lessD1 nth_append nth_drop less_imp_le)
qed

lemma framed_length:
  assumes "FindCRLF s" and "FindSPACE s"
  shows "TOKEN_LENGTH \<le> length s"
proof -
  obtain p q where p: "find_str CRLF s = Some p" and q: "find_str SPACE3 s = Some q"
    using assms by (auto simp: FindCRLF_def FindSPACE_def)
  have P: "s ! p = CHR 0x0D" "s ! (p + 1) = CHR 0x0A"
    using find_str_nth [OF p, of 0] find_str_nth [OF p, of 1] by (simp_all add: CRLF_def)
  have Q: "s ! (q + i) = CHR '' ''" if "i < 3" for i
    using find_str_nth [OF q, of i] that by (auto simp: SPACE3_def less_Suc_eq numeral_3_eq_3)
  have "s ! m = CHR '' ''" if "q \<le> m" "m < q + 3" for m
    using Q [of "m - q"] that by (simp add: less_diff_conv2)
  with P have "\<not> (q \<le> p \<and> p < q + 3)" and "\<not> (q \<le> p + 1 \<and> p + 1 < q + 3)"
    by fastforce+
  then show ?thesis
    using find_str_bound [OF p] find_str_bound [OF q]
    by (auto simp: CRLF_def SPACE3_def TOKEN_LENGTH_def)
qed

lemma serve_chunk_short: "length str < TOKEN_LENGTH \<Longrightarrow> serve_chunk api peer fd str s = Inr s"
  using framed_length [of str] by (auto simp: serve_chunk_def)

lemma serve_chunk_unframed: "\<not> FindCRLF str \<or> \<not> FindSPACE str \<Longrightarrow> serve_chunk api peer fd str s = Inr s"
  by (auto simp: serve_chunk_def)

subsection \<open>What a client sends\<close>

text \<open>
  The request text of a list of fields, as the handler reads it: the token, every field
  followed by three spaces, and the line end.  A field is sendable when it holds neither
  a space nor a carriage return.
\<close>

definition request_text :: "string list \<Rightarrow> string" where
  "request_text fs = TOKEN_STR @ join_tokens SPACE3 fs"

definition sendable :: "string list \<Rightarrow> bool" where
  "sendable fs \<longleftrightarrow> fs \<noteq> [] \<and> list_all (\<lambda>f. CHR '' '' \<notin> set f \<and> CHR 0x0D \<notin> set f) fs"

lemma sendable_space: "sendable fs \<Longrightarrow> f \<in> set fs \<Longrightarrow> clean_token SPACE3 f"
  by (rule clean_token_hd) (auto simp: sendable_def list_all_iff SPACE3_def)

lemma set_join_tokens: "set (join_tokens d ts) \<subseteq> set d \<union> \<Union> (set ` set ts)"
  by (induction ts) auto

lemma request_text_clean: "sendable fs \<Longrightarrow> clean_token CRLF (request_text fs)"
  using set_join_tokens [of SPACE3 fs]
  by (intro clean_token_hd) (auto simp: sendable_def list_all_iff request_text_def TOKEN_STR_def SPACE3_def CRLF_def)

lemma request_fields:
  assumes "sendable fs"
  shows "split_tokens SPACE3 (drop TOKEN_LENGTH (request_text fs)) = fs"
proof -
  have "split_tokens SPACE3 (join_tokens SPACE3 fs @ []) = fs @ split_tokens SPACE3 []"
    by (rule split_tokens_join) (use sendable_space [OF assms] in auto)
  moreover have "find_str SPACE3 [] = None" by (simp add: SPACE3_def)
  ultimately show ?thesis
    by (simp add: request_text_def TOKEN_STR_def TOKEN_LENGTH_def split_tokens_absent)
qed

lemma requests_framed:
  assumes "list_all sendable fss" and "fss \<noteq> []"
  shows "FindCRLF (join_tokens CRLF (map request_text fss) @ r) \<and>
    FindSPACE (join_tokens CRLF (map request_text fss) @ r)"
proof -
  obtain fs gss where fss: "fss = fs # gss" using assms(2) by (cases fss) auto
  obtain f gs where fs: "fs = f # gs" using assms(1) fss by (cases fs) (auto simp: sendable_def)
  let ?s = "join_tokens CRLF (map request_text fss) @ r"
  have "?s = request_text fs @ CRLF @ (join_tokens CRLF (map request_text gss) @ r)"
    by (simp add: fss)
  then have crlf: "find_str CRLF ?s \<noteq> None" by (simp only: sublist_framed not_False_eq_True)
  have "?s = (TOKEN_STR @ f) @ SPACE3 @ (join_tokens SPACE3 gs @ CRLF @ join_tokens CRLF (map request_text gss) @ r)"
    by (simp add: fss fs request_text_def)
  then have "find_str SPACE3 ?s \<noteq> None" by (simp only: sublist_framed not_False_eq_True)
  with crlf show ?thesis by (simp add: FindCRLF_def FindSPACE_def)
qed

fun run_commands ::
  "'db mysql_api \<Rightarrow> (int \<Rightarrow> in_addr) \<Rightarrow> int \<Rightarrow> string list list \<Rightarrow> 'db io \<Rightarrow> 'db io outcome" where
  "run_commands api peer fd [] s = Inr s"
| "run_commands api peer fd (fs # fss) s =
     bindE (run_command api peer fd fs s) (run_commands api peer fd fss)"

lemma process_messages_requests:
  "list_all sendable fss \<Longrightarrow>
     process_messages api peer fd (map request_text fss) s = run_commands api peer fd fss s"
  by (induction fss arbitrary: s) (auto simp: process_message_def request_fields bindE_def split: sum.splits)

lemma serve_chunk_requests:
  assumes "list_all sendable fss" and "find_str CRLF r = None"
  shows "serve_chunk api peer fd (join_tokens CRLF (map request_text fss) @ r) s = run_commands api peer fd fss s"
proof (cases "fss = []")
  case True
  then show ?thesis using assms(2) by (simp add: serve_chunk_unframed FindCRLF_def)
next
  case False
  have "split_tokens CRLF (join_tokens CRLF (map request_text fss) @ r) = map request_text fss @ split_tokens CRLF r"
    using assms(1) request_text_clean by (intro split_tokens_join) (auto simp: list_all_iff)
  then show ?thesis
    using requests_framed [OF assms(1) False] assms
    by (simp add: serve_chunk_def process_messages_requests split_tokens_absent)
qed

subsection \<open>Lengths of the SQL texts\<close>

lemma length_quoted: "length (quoted s) \<le> length s + 2"
  using length_c_str [of s] by (simp add: quoted_def)

lemma fields_length:
  assumes "vec = split_tokens SPACE3 (drop TOKEN_LENGTH msg)" and "vec \<noteq> []"
  shows "sum_list (map length vec) + 3 * length vec + 5 \<le> length msg"
proof -
  have "sum_list (map length vec) + 3 * length vec \<le> length (drop TOKEN_LENGTH msg)"
    using sum_split_tokens [of SPACE3 "drop TOKEN_LENGTH msg"] assms(1) by (simp add: SPACE3_def)
  moreover have "0 < length vec" using assms(2) by simp
  ultimately show ?thesis unfolding TOKEN_LENGTH_def length_drop by linarith
qed

lemma length_sql:
  "length (sql_insert_device name device_id p2p_id ip) \<le>
     85 + length name + length device_id + length p2p_id + length ip"
  "length (sql_find_user name) \<le> 39 + length name"
  "length (sql_insert_user name passwd) \<le> 57 + length name + length passwd"
  "length (sql_select_user name) \<le> 37 + length name"
  "length (sql_update_user name passwd) \<le> 48 + length name + length passwd"
  "length (sql_delete_user id0) \<le> 45 + length id0"
  using length_quoted [of name] length_quoted [of passwd] length_quoted [of device_id]
    length_quoted [of p2p_id] length_quoted [of ip] length_quoted [of id0]
  by (simp_all add: sql_insert_device_def sql_find_user_def sql_insert_user_def sql_select_user_def
      sql_update_user_def sql_delete_user_def)

lemma NUL_sql:
  "NUL \<notin> set (sql_insert_device name device_id p2p_id ip)"
  "NUL \<notin> set (sql_find_user name)"
  "NUL \<notin> set (sql_insert_user name passwd)"
  "NUL \<notin> set (sql_select_user name)"
  "NUL \<notin> set (sql_update_user name passwd)"
  "NUL \<notin> set (sql_delete_user id0)"
  using NUL_c_str [of name] NUL_c_str [of passwd] NUL_c_str [of device_id]
    NUL_c_str [of p2p_id] NUL_c_str [of ip] NUL_c_str [of id0]
  by (simp_all add: sql_insert_device_def sql_find_user_def sql_insert_user_def sql_select_user_def
      sql_update_user_def sql_delete_user_def quoted_def NUL_def)

lemmas c_str_sql = NUL_sql [THEN c_str_id]

subsection \<open>What SelectData returns\<close>

text \<open>
  The tables have at least three columns and none of the first three is NULL: every result
  set of the server is like that.
\<close>

definition wide_results :: "'db mysql_api \<Rightarrow> bool" where
  "wide_results api \<longleftrightarrow>
     (\<forall>db rows db'. mysql_store_result api db = (Some rows, db') \<longrightarrow>
        list_all (\<lambda>r. 3 \<le> length r \<and> list_all (\<lambda>c. c \<noteq> None) (take 3 r)) rows)"

definition plain_row :: "string list \<Rightarrow> bool" where
  "plain_row fs \<longleftrightarrow> length fs = 3 \<and> list_all (\<lambda>f. NUL \<notin> set f) fs"

lemma row_text_total:
  "n \<le> length r \<Longrightarrow> list_all (\<lambda>c. c \<noteq> None) (take n r) \<Longrightarrow>
     \<exists>fs. length fs = n \<and> list_all (\<lambda>f. NUL \<notin> set f) fs \<and>
       row_text n r = Inr (concat (map (\<lambda>f. f @ [RG]) fs))"
proof (induction n r rule: row_text.induct)
  case (4 n f cols)
  then obtain fs where "length fs = n" "list_all (\<lambda>f. NUL \<notin> set f) fs"
    "row_text n cols = Inr (concat (map (\<lambda>f. f @ [RG]) fs))" by auto
  then show ?case by (intro exI [of _ "c_str f # fs"]) auto
qed auto

lemma rows_text_total:
  "list_all (\<lambda>r. 3 \<le> length r \<and> list_all (\<lambda>c. c \<noteq> None) (take 3 r)) rows \<Longrightarrow>
     \<exists>ts. length ts = length rows \<and> list_all plain_row ts \<and>
       rows_text 3 rows = Inr (concat (map row_layout ts))"
proof (induction rows)
  case Nil
  then show ?case by simp
next
  case (Cons r rows)
  then obtain ts where ts: "length ts = length rows" "list_all plain_row ts"
    "rows_text 3 rows = Inr (concat (map row_layout ts))" by auto
  from Cons.prems obtain fs where "length fs = 3" "list_all (\<lambda>f. NUL \<notin> set f) fs"
    "row_text 3 r = Inr (concat (map (\<lambda>f. f @ [RG]) fs))"
    using row_text_total [of 3 r] by auto
  moreover from this have "plain_row fs" by (simp add: plain_row_def)
  ultimately show ?case
    using ts by (intro exI [of _ "fs # ts"]) (simp add: row_layout_def [of fs])
qed

lemma SelectData_total:
  assumes "wide_results api" and "length (c_str SQL) < 2048"
  shows "\<exists>ts db'. SelectData api SQL 3 db = Inr (concat (map row_layout ts), db') \<and> list_all plain_row ts"
proof -
  obtain rc db1 where q: "mysql_query api (c_str SQL) db = (rc, db1)" by fastforce
  obtain res db2 where r: "mysql_store_result api db1 = (res, db2)" by fastforce
  show ?thesis
  proof (cases "rc = 0 \<and> res \<noteq> None")
    case False
    then have "SelectData api SQL 3 db = Inr (concat (map row_layout []), if rc = 0 then db2 else db1)"
      using assms(2) q r by (auto simp: SelectData_def sprintf_buf_def)
    then show ?thesis
      by (intro exI [of _ "[]"] exI [of _ "if rc = 0 then db2 else db1"]) simp
  next
    case True
    then obtain rows where rows: "res = Some rows" by auto
    with assms(1) r obtain ts where "list_all plain_row ts" "rows_text 3 rows = Inr (concat (map row_layout ts))"
      using rows_text_total [of rows] by (auto simp: wide_results_def)
    with True q r rows assms(2) show ?thesis
      by (auto simp: SelectData_def sprintf_buf_def)
  qed
qed

lemma walk_back_found:
  "k \<le> i \<Longrightarrow> p ! k = RG \<Longrightarrow> (\<And>m. k < m \<Longrightarrow> m \<le> i \<Longrightarrow> p ! m \<noteq> RG) \<Longrightarrow> walk_back p i = Inr k"
proof (induction i)
  case 0
  then show ?case by simp
next
  case (Suc i)
  show ?case
  proof (cases "k = Suc i")
    case True
    with Suc.prems show ?thesis by simp
  next
    case False
    with Suc show ?thesis by simp
  qed
qed

lemma walk_back_returns: "k \<le> i \<Longrightarrow> p ! k = RG \<Longrightarrow> \<exists>m\<le>i. walk_back p i = Inr m"
proof (induction i)
  case 0
  then show ?case by simp
next
  case (Suc i)
  then show ?case by (cases "k = Suc i") (auto simp: le_Suc_eq)
qed

lemma plain_last_row:
  assumes "list_all plain_row ts" and "ts \<noteq> []"
  shows "\<exists>u f. concat (map row_layout ts) = u @ RG # f @ [RG, CG] \<and> f = last (last ts) \<and>
    c_str (concat (map row_layout ts)) = concat (map row_layout ts)"
proof -
  obtain init l where ts: "ts = init @ [l]" using assms(2) by (metis append_butlast_last_id)
  from assms(1) ts obtain f1 f2 f3 where l: "l = [f1, f2, f3]"
    by (auto simp: plain_row_def length_Suc_conv numeral_3_eq_3)
  have "NUL \<notin> set (row_layout fs)" if "plain_row fs" for fs
    using that by (auto simp: plain_row_def list_all_iff row_layout_def RG_def CG_def NUL_def)
  with assms(1) have "NUL \<notin> set (concat (map row_layout ts))"
    by (auto simp: list_all_iff)
  then show ?thesis
    by (intro exI [of _ "concat (map row_layout init) @ f1 @ RG # f2"] exI [of _ f3])
      (simp add: ts l row_layout_simps c_str_id)
qed

lemma stored_passwd_returns:
  assumes "list_all plain_row ts" and "ts \<noteq> []"
  shows "\<exists>new. stored_passwd (concat (map row_layout ts)) = Inr new \<and>
    (RG \<notin> set (last (last ts)) \<longrightarrow> new = last (last ts))"
proof -
  let ?p = "concat (map row_layout ts)"
  from plain_last_row [OF assms] obtain u f
    where p: "?p = u @ RG # f @ [RG, CG]" "f = last (last ts)" "c_str ?p = ?p" by blast
  have at: "?p ! length u = RG" and len: "length ?p - 3 = length u + length f" "3 \<le> length ?p"
    by (simp_all add: p)
  obtain m where m: "m \<le> length u + length f" "walk_back ?p (length u + length f) = Inr m"
    using walk_back_returns [of "length u" "length u + length f" ?p] at by auto
  have ne: "drop (m + 1) ?p \<noteq> []" "butlast (drop (m + 1) ?p) \<noteq> []"
    using m(1) by (auto simp: p(1) butlast_conv_take)
  then have run: "stored_passwd ?p = Inr (butlast (butlast (drop (m + 1) ?p)))"
    using m len p(3) by (simp add: stored_passwd_def erase_last_def)
  have "butlast (butlast (drop (m + 1) ?p)) = f" if "RG \<notin> set f"
  proof -
    have "walk_back ?p (length u + length f) = Inr (length u)"
    proof (rule walk_back_found)
      fix k assume k: "length u < k" "k \<le> length u + length f"
      then obtain j where j: "k = Suc (length u + j)" "j < length f"
        using less_imp_Suc_add [of "length u" k] by auto
      then have "?p ! k = f ! j" by (simp add: p(1) nth_append)
      with j that show "?p ! k \<noteq> RG" by (metis nth_mem)
    qed (use at in auto)
    with m have "m = length u" by simp
    then show ?thesis by (simp add: p(1) butlast_append)
  qed
  with run p(2) show ?thesis by blast
qed

subsection \<open>Replies\<close>

definition reply_texts :: "string list" where
  "reply_texts = [''f0:ok'', ''e1:fail'', ''e2:fail'', ''e3:fail'']"

definition is_delete :: "string list \<Rightarrow> bool" where
  "is_delete vec \<longleftrightarrow> (length vec = 6 \<or> length vec = 3) \<and> atoi (vec ! 0) = 4"

text \<open>One reply of the vocabulary was written to the socket, and nothing else.\<close>

definition replied :: "int \<Rightarrow> 'db io \<Rightarrow> 'db io \<Rightarrow> bool" where
  "replied fd s s' \<longleftrightarrow> (\<exists>r. r \<in> set reply_texts \<and> wire s' = wire s @ [(fd, xor_text r)])"

lemma wire_reply [simp]:
  "wire (reply fd r s) = wire s @ [(fd, xor_text r)]" "dbs (reply fd r s) = dbs s"
  by (simp_all add: reply_def)

lemma replied_reply: "r \<in> set reply_texts \<Longrightarrow> wire s1 = wire s \<Longrightarrow> replied fd s (reply fd r s1)"
  by (auto simp: replied_def)

lemma replied_insert: "insert_and_reply api fd sql s1 = Inr s' \<Longrightarrow> wire s1 = wire s \<Longrightarrow> replied fd s s'"
  by (auto simp: insert_and_reply_def reply_texts_def intro!: replied_reply)

lemma replied_INSERT: "case_INSERT api fd name passwd dev p2p ip s = Inr s' \<Longrightarrow> replied fd s s'"
  by (auto simp: case_INSERT_def Let_def reply_texts_def cxx_simps split: if_splits
      intro: replied_insert intro!: replied_reply)

lemma replied_SELECT: "case_SELECT api fd name passwd s = Inr s' \<Longrightarrow> replied fd s s'"
  by (auto simp: case_SELECT_def Let_def reply_texts_def split: if_splits intro!: replied_reply)

lemma replied_UPDATE: "case_UPDATE api fd name passwd s = Inr s' \<Longrightarrow> replied fd s s'"
  by (auto simp: case_UPDATE_def reply_texts_def intro!: replied_reply)

lemma replied_default: "case_default fd s = Inr s' \<Longrightarrow> replied fd s s'"
  by (auto simp: case_default_def reply_texts_def intro!: replied_reply)

lemma wire_DELETE: "case_DELETE api s = Inr s' \<Longrightarrow> wire s' = wire s"
  by (auto simp: case_DELETE_def)

lemmas replied_rules = replied_INSERT replied_SELECT replied_UPDATE replied_default

lemma run_command_replies:
  "run_command api peer fd vec s = Inr s' \<Longrightarrow> if is_delete vec then wire s' = wire s else replied fd s s'"
  by (auto simp: run_command_def is_delete_def Let_def split: if_splits
      intro: replied_rules wire_DELETE)

lemma run_commands_replies:
  "run_commands api peer fd fss s = Inr s' \<Longrightarrow>
     \<exists>rs. wire s' = wire s @ map (\<lambda>r. (fd, xor_text r)) rs \<and> set rs \<subseteq> set reply_texts \<and>
       length rs = length (filter (\<lambda>fs. \<not> is_delete fs) fss)"
proof (induction fss arbitrary: s)
  case Nil
  then show ?case by simp
next
  case (Cons fs fss)
  then obtain s1 where s1: "run_command api peer fd fs s = Inr s1" "run_commands api peer fd fss s1 = Inr s'"
    by auto
  from Cons.IH [OF s1(2)] obtain rs where rs: "wire s' = wire s1 @ map (\<lambda>r. (fd, xor_text r)) rs"
    "set rs \<subseteq> set reply_texts" "length rs = length (filter (\<lambda>fs. \<not> is_delete fs) fss)" by blast
  show ?case
  proof (cases "is_delete fs")
    case True
    with rs run_command_replies [OF s1(1)] show ?thesis by (intro exI [of _ rs]) simp
  next
    case False
    with run_command_replies [OF s1(1)] obtain r where "r \<in> set reply_texts" "wire s1 = wire s @ [(fd, xor_text r)]"
      by (auto simp: replied_def)
    with False rs show ?thesis by (intro exI [of _ "r # rs"]) simp
  qed
qed

subsection \<open>Commands that stay inside their buffers\<close>

lemma statement_total:
  assumes "length (c_str sql) < 2048"
  shows "\<exists>rc db'. InsertData api sql db = Inr (rc, db')" and "\<exists>rc db'. UpdateData api sql db = Inr (rc, db')"
    and "\<exists>rc db'. DeleteData api sql db = Inr (rc, db')"
  using assms by (auto simp: InsertData_def UpdateData_def DeleteData_def sprintf_buf_def split: prod.splits)

lemma insert_and_reply_total:
  "length (c_str sql) < 2048 \<Longrightarrow> \<exists>s'. insert_and_reply api fd sql s = Inr s'"
  using statement_total(1) [of sql api "dbs s"] by (auto simp: insert_and_reply_def)

lemma sprintf_fits: "length sql < BUFSIZE \<Longrightarrow> sprintf_buf BUFSIZE sql = Inr sql \<and> length (c_str sql) < 2048"
  using length_c_str [of sql] by (simp add: sprintf_buf_def BUFSIZE_def)

lemma insert_and_reply_eq:
  assumes "length sql < BUFSIZE" and "NUL \<notin> set sql"
  shows "insert_and_reply api fd sql s =
    (case mysql_query api sql (dbs s) of (rc, db1) \<Rightarrow>
       Inr (reply fd (if rc = 0 then ''f0:ok'' else ''e2:fail'') (s\<lparr>dbs := db1\<rparr>)))"
  using assms by (simp add: insert_and_reply_def InsertData_def sprintf_buf_def BUFSIZE_def c_str_id split: prod.splits)

lemma case_INSERT_total:
  assumes "wide_results api" and "85 + length name + length passwd + length dev + length p2p + length ip < BUFSIZE"
  shows "\<exists>s'. case_INSERT api fd name passwd dev p2p ip s = Inr s'"
proof -
  have fit: "length (sql_insert_device name dev p2p ip) < BUFSIZE" "length (sql_find_user name) < BUFSIZE"
    "length (sql_insert_user name passwd) < BUFSIZE"
    using assms(2) length_sql(1) [of name dev p2p ip] length_sql(2) [of name] length_sql(3) [of name passwd]
    by linarith+
  obtain ts db' where "SelectData api (sql_find_user name) 3 (dbs s) = Inr (concat (map row_layout ts), db')"
    using SelectData_total [OF assms(1), of "sql_find_user name" "dbs s"] sprintf_fits [OF fit(2)] by blast
  then show ?thesis
    using sprintf_fits [OF fit(1)] sprintf_fits [OF fit(2)] sprintf_fits [OF fit(3)]
    by (auto simp: case_INSERT_def Let_def intro: insert_and_reply_total)
qed

lemma case_SELECT_total:
  assumes "wide_results api" and "37 + length name < BUFSIZE"
  shows "\<exists>s'. case_SELECT api fd name passwd s = Inr s'"
proof -
  have fit: "length (sql_select_user name) < BUFSIZE"
    using assms(2) length_sql(4) [of name] by linarith
  obtain ts db' where sel: "SelectData api (sql_select_user name) 3 (dbs s) = Inr (concat (map row_layout ts), db')"
    "list_all plain_row ts"
    using SelectData_total [OF assms(1), of "sql_select_user name" "dbs s"] sprintf_fits [OF fit] by blast
  show ?thesis
  proof (cases "ts = []")
    case True
    then show ?thesis using sel sprintf_fits [OF fit] by (simp add: case_SELECT_def)
  next
    case False
    then show ?thesis
      using sel sprintf_fits [OF fit] stored_passwd_returns [OF sel(2) False]
      by (auto simp: case_SELECT_def Let_def)
  qed
qed

lemma case_UPDATE_total: "48 + length name + length passwd < BUFSIZE \<Longrightarrow> \<exists>s'. case_UPDATE api fd name passwd s = Inr s'"
proof -
  assume "48 + length name + length passwd < BUFSIZE"
  then have fit: "length (sql_update_user name passwd) < BUFSIZE"
    using length_sql(5) [of name passwd] by linarith
  then show ?thesis
    using sprintf_fits [OF fit] statement_total(2) [of "sql_update_user name passwd" api "dbs s"]
    by (auto simp: case_UPDATE_def)
qed

lemma case_DELETE_total: "\<exists>s'. case_DELETE api s = Inr s'"
proof -
  have fit: "length (sql_delete_user '''') < BUFSIZE"
    using length_sql(6) [of "''''"] by (simp add: BUFSIZE_def)
  then show ?thesis
    using sprintf_fits [OF fit] statement_total(3) [of "sql_delete_user ''''" api "dbs s"]
    by (auto simp: case_DELETE_def)
qed

lemma run_command_total:
  assumes "wide_results api" and "sum_list (map length vec) + 100 < BUFSIZE"
  shows "\<exists>s'. run_command api peer fd vec s = Inr s'"
proof (cases "length vec = 6 \<or> length vec = 3")
  case False
  then show ?thesis by (simp add: run_command_def case_default_def)
next
  case True
  define dev p2p ip where "dev = (if length vec = 6 then vec ! 3 else '''')"
    and "p2p = (if length vec = 6 then vec ! 4 else '''')"
    and "ip = (if length vec = 6 then inet_ntoa (peer fd) else '''')"
  have len: "length (vec ! 1) + length (vec ! 2) + length dev + length p2p \<le> sum_list (map length vec)"
    using True by (auto simp: dev_def p2p_def eval_nat_numeral length_Suc_conv)
  have ip: "length ip \<le> 15" using length_inet_ntoa by (simp add: ip_def)
  have "\<exists>s'. case_INSERT api fd (vec ! 1) (vec ! 2) dev p2p ip s = Inr s'"
    by (rule case_INSERT_total [OF assms(1)]) (use len ip assms(2) in linarith)
  moreover have "\<exists>s'. case_SELECT api fd (vec ! 1) (vec ! 2) s = Inr s'"
    by (rule case_SELECT_total [OF assms(1)]) (use len assms(2) in linarith)
  moreover have "\<exists>s'. case_UPDATE api fd (vec ! 1) (vec ! 2) s = Inr s'"
    by (rule case_UPDATE_total) (use len assms(2) in linarith)
  ultimately show ?thesis
    using case_DELETE_total [of api s] True
    by (auto simp: run_command_def Let_def dev_def p2p_def ip_def case_default_def)
qed

lemma process_messages_total:
  assumes "wide_results api" and "\<And>m. m \<in> set ms \<Longrightarrow> length m + 86 < BUFSIZE"
  shows "\<exists>s'. process_messages api peer fd ms s = Inr s'"
  using assms(2)
proof (induction ms arbitrary: s)
  case Nil
  then show ?case by simp
next
  case (Cons m ms)
  let ?vec = "split_tokens SPACE3 (drop TOKEN_LENGTH m)"
  have "sum_list (map length ?vec) + 100 < BUFSIZE \<or> length ?vec \<noteq> 6 \<and> length ?vec \<noteq> 3"
    using fields_length [OF refl, of m] Cons.prems [of m] by (cases "?vec = []") auto
  then have "\<exists>s1. process_message api peer fd m s = Inr s1"
    unfolding process_message_def
    by (elim disjE conjE) (blast intro: run_command_total [OF assms(1)], simp add: run_command_def case_default_def)
  with Cons show ?case by fastforce
qed

subsection \<open>A server that records its statements\<close>

text \<open>For the concrete instances: it accepts every statement, keeps the list of them, and answers every query with the given rows.\<close>

definition recording_api :: "string option list list \<Rightarrow> string list mysql_api" where
  "recording_api rows =
     \<lparr>mysql_init = \<lambda>d. (True, d), mysql_options = \<lambda>_ d. d,
      mysql_real_connect = \<lambda>_ _ _ _ _ d. (True, d),
      mysql_set_character_set = \<lambda>_ d. (0, d), mysql_query = \<lambda>q d. (0, d @ [q]),
      mysql_store_result = \<lambda>d. (Some rows, d), mysql_close = \<lambda>d. d\<rparr>"

definition bob_row :: "string option list" where
  "bob_row = [Some ''1'', Some ''bob'', Some ''pw'']"

definition idle_io :: "string list io" where
  "idle_io = \<lparr>dbs = [], wire = []\<rparr>"

definition local_peer :: "int \<Rightarrow> in_addr" where
  "local_peer fd = (127, 0, 0, 1)"

end
