(* ===== verification/HandlerProps.thy ===== *)
theory HandlerProps
  imports HandlerFacts
begin

section \<open>Properties of the request handler\<close>

text \<open>
  The theorems on \<open>start_routine\<close>: the token gate, the execution of framed requests, the
  replies, the login check, the three modifications, and the sizes at which the fixed
  buffers hold or overflow.
\<close>

text \<open>
  C4. The token gate.  A connection that is not yet verified and sends bytes that do not
  start with the token causes no query and no reply.  Five bytes or more end it: it is
  marked and closed, its object goes back to the pool; fewer bytes change nothing.
\<close>

theorem start_routine_token_gate:
  assumes "heap st a = Some c" and "\<not> isVerify c" and "take TOKEN_LENGTH (xor_text chunk) \<noteq> TOKEN_STR"
  shows "start_routine api peer bev a chunk (st, s) =
    (if TOKEN_LENGTH \<le> length chunk
     then bindE (CloseConn a bev (st\<lparr>heap := (heap st)(a \<mapsto> c\<lparr>isVerify := True\<rparr>)\<rparr>)) (\<lambda>st'. Inr (st', s))
     else Inr (st, s))"
  using assms by (simp add: start_routine_def serve_chunk_short Let_def not_le)

theorem start_routine_token_gate_witness:
  "start_routine (recording_api []) local_peer 1 1 (xor_text ''bad'')
     ((start_store static_freelist)\<lparr>heap := [1 \<mapsto> example_conn]\<rparr>, idle_io) =
   Inr ((start_store static_freelist)\<lparr>heap := [1 \<mapsto> example_conn]\<rparr>, idle_io)"
  by (subst start_routine_token_gate [where c = example_conn])
    (simp_all add: example_conn_def TOKEN_LENGTH_def TOKEN_STR_def)

lemma start_routine_run:
  assumes "heap st a = Some c" and "list_all sendable fss" and "fss \<noteq> []" and "find_str CRLF r = None"
  shows "start_routine api peer bev a (xor_text (join_tokens CRLF (map request_text fss) @ r)) (st, s) =
    bindE (run_commands api peer (sfd c) fss s)
      (\<lambda>s'. Inr (st\<lparr>heap := (heap st)(a \<mapsto> c\<lparr>isVerify := True\<rparr>)\<rparr>, s'))"
proof -
  let ?str = "join_tokens CRLF (map request_text fss) @ r"
  obtain fs gss where "fss = fs # gss" using assms(3) by (cases fss) auto
  then have "?str = TOKEN_STR @ join_tokens SPACE3 fs @ CRLF @ join_tokens CRLF (map request_text gss) @ r"
    by (simp add: request_text_def)
  then have tok: "take TOKEN_LENGTH ?str = TOKEN_STR" and "TOKEN_LENGTH \<le> length ?str"
    by (simp_all add: TOKEN_LENGTH_def TOKEN_STR_def)
  moreover have "(heap st)(a \<mapsto> c\<lparr>isVerify := True\<rparr>) = heap st" if "isVerify c"
    using that assms(1) by (auto simp: fun_upd_idem_iff)
  ultimately show ?thesis
    using assms tok by (auto simp: start_routine_def Let_def serve_chunk_requests)
qed

text \<open>
  C11. Well formed requests are executed.  A client that sends, in one read, requests whose
  fields hold no space and no carriage return, each as token, fields with three spaces
  after each, and line end, passes the gate; every request is then executed on its own
  fields, in order, and text after the last line end is ignored.
\<close>

theorem start_routine_requests:
  assumes "heap st a = Some c" and "list_all sendable fss" and "fss \<noteq> []" and "find_str CRLF r = None"
  shows "start_routine api peer bev a (xor_text (join_tokens CRLF (map request_text fss) @ r)) (st, s) =
    bindE (run_commands api peer (sfd c) fss s)
      (\<lambda>s'. Inr (st\<lparr>heap := (heap st)(a \<mapsto> c\<lparr>isVerify := True\<rparr>)\<rparr>, s'))"
  using assms by (rule start_routine_run)

definition demo_chunk :: string where
  "demo_chunk = join_tokens CRLF (map request_text [[''4'', ''x'', ''y''], [''9'']])"

lemma demo_delete: "run_command (recording_api []) local_peer 0 [''4'', ''x'', ''y''] idle_io =
    Inr (idle_io\<lparr>dbs := [sql_delete_user '''']\<rparr>)"
  by code_simp

theorem start_routine_requests_witness:
  "start_routine (recording_api []) local_peer 1 1 (xor_text demo_chunk)
     ((start_store static_freelist)\<lparr>heap := [1 \<mapsto> example_conn]\<rparr>, idle_io) =
   Inr ((start_store static_freelist)\<lparr>heap := [1 \<mapsto> example_conn\<lparr>isVerify := True\<rparr>]\<rparr>,
        \<lparr>dbs = [sql_delete_user ''''], wire = [(0, xor_text ''e3:fail'')]\<rparr>)"
proof -
  have run: "run_commands (recording_api []) local_peer 0 [[''4'', ''x'', ''y''], [''9'']] idle_io =
      Inr \<lparr>dbs = [sql_delete_user ''''], wire = [(0, xor_text ''e3:fail'')]\<rparr>"
    by code_simp
  have "find_str CRLF [] = None" by (simp add: CRLF_def)
  from start_routine_requests [where fss = "[[''4'', ''x'', ''y''], [''9'']]" and r = "[]" and c = example_conn
      and st = "(start_store static_freelist)\<lparr>heap := [1 \<mapsto> example_conn]\<rparr>" and a = 1 and s = idle_io
      and api = "recording_api []" and peer = local_peer and bev = 1, OF _ _ _ this]
  show ?thesis
    using run by (simp add: demo_chunk_def sendable_def example_conn_def del: run_commands.simps)
qed

lemma message_fields:
  "process_messages api peer fd ms s =
     run_commands api peer fd (map (\<lambda>m. split_tokens SPACE3 (drop TOKEN_LENGTH m)) ms) s"
  by (induction ms arbitrary: s) (auto simp: process_message_def bindE_def split: sum.splits)

text \<open>
  Replies.  For a chunk that passes both searches the handler, when it returns, has
  written to the client exactly one reply for every message that is not a DELETE request,
  in the order of the messages, and every reply is one of the four status texts, encoded
  with the key.
\<close>

theorem serve_chunk_replies:
  assumes "FindCRLF str" and "FindSPACE str" and "serve_chunk api peer fd str s = Inr s'"
  shows "\<exists>rs. wire s' = wire s @ map (\<lambda>r. (fd, xor_text r)) rs \<and> set rs \<subseteq> set reply_texts \<and>
    length rs = length (filter (\<lambda>m. \<not> is_delete (split_tokens SPACE3 (drop TOKEN_LENGTH m))) (split_tokens CRLF str))"
  using assms run_commands_replies
    [of api peer fd "map (\<lambda>m. split_tokens SPACE3 (drop TOKEN_LENGTH m)) (split_tokens CRLF str)" s s']
  by (simp add: serve_chunk_def message_fields filter_map comp_def)

theorem serve_chunk_replies_witness:
  "\<exists>rs. [(0 :: int, xor_text ''e3:fail'')] = map (\<lambda>r. (0, xor_text r)) rs \<and> set rs \<subseteq> set reply_texts \<and> length rs = 1"
proof -
  have "FindCRLF demo_chunk" "FindSPACE demo_chunk" by code_simp+
  moreover have "serve_chunk (recording_api []) local_peer 0 demo_chunk idle_io =
      Inr \<lparr>dbs = [sql_delete_user ''''], wire = [(0, xor_text ''e3:fail'')]\<rparr>"
    by code_simp
  moreover have "length (filter (\<lambda>m. \<not> is_delete (split_tokens SPACE3 (drop TOKEN_LENGTH m))) (split_tokens CRLF demo_chunk)) = 1"
    by code_simp
  ultimately show ?thesis
    using serve_chunk_replies [of demo_chunk "recording_api []" local_peer 0 idle_io] by (simp add: idle_io_def)
qed

text \<open>
  C19. Login.  A SELECT request is answered from the last row that the query for the name
  returned: accepted when its third column is the password sent (up to a NUL), refused
  with \<open>e3:fail\<close> when it differs, and with \<open>e1:fail\<close> when there is no row.  The search for
  the password in the result text never reads outside it.
\<close>

theorem run_command_login:
  assumes "atoi cmd = 2" and "37 + length name < BUFSIZE"
    and "mysql_query api (sql_select_user name) (dbs s) = (0, db1)"
    and "mysql_store_result api db1 = (Some (map (map Some) rows), db2)"
    and "list_all (\<lambda>fs. length fs = 3 \<and> list_all field_ok fs) rows"
  shows "run_command api peer fd [cmd, name, passwd] s =
    Inr (reply fd (if rows = [] then ''e1:fail''
                   else if last (last rows) = c_str passwd then ''f0:ok'' else ''e3:fail'')
           (s\<lparr>dbs := db2\<rparr>))"
proof -
  have fit: "sprintf_buf BUFSIZE (sql_select_user name) = Inr (sql_select_user name)"
    "length (c_str (sql_select_user name)) < 2048"
    using assms(2) length_sql(4) [of name] sprintf_fits [of "sql_select_user name"] by auto
  have plain: "list_all plain_row rows"
    using assms(5) by (auto simp: plain_row_def list_all_iff field_ok_def)
  then have sel: "SelectData api (sql_select_user name) 3 (dbs s) = Inr (concat (map row_layout rows), db2)"
    using assms(3,4) fit rows_text_layout [of 3 rows] assms(5)
    by (auto simp: SelectData_def cxx_simps c_str_sql list_all_iff field_ok_def)
  show ?thesis
  proof (cases "rows = []")
    case True
    then show ?thesis using assms(1) fit sel by (simp add: run_command_def case_SELECT_def)
  next
    case False
    then have ne: "concat (map row_layout rows) \<noteq> []"
      by (cases rows) (auto simp: row_layout_def)
    have "last rows \<in> set rows" using False by simp
    then have row: "length (last rows) = 3" "\<forall>f\<in>set (last rows). field_ok f"
      using assms(5) by (auto simp: list_all_iff)
    then have "last (last rows) \<in> set (last rows)" by (cases "last rows") auto
    with row have "RG \<notin> set (last (last rows))" by (simp add: field_ok_def)
    with stored_passwd_returns [OF plain False]
    have "stored_passwd (concat (map row_layout rows)) = Inr (last (last rows))" by auto
    then show ?thesis
      using assms(1) fit sel ne False by (simp add: run_command_def case_SELECT_def)
  qed
qed

theorem run_command_login_witness:
  "run_command (recording_api [bob_row]) local_peer 7 [''2'', ''bob'', ''no''] idle_io =
     Inr (reply 7 ''e3:fail'' (idle_io\<lparr>dbs := [sql_select_user ''bob'']\<rparr>))"
proof -
  have "atoi ''2'' = 2" by code_simp
  from run_command_login [OF this, where name = "''bob''" and passwd = "''no''" and api = "recording_api [bob_row]"
      and rows = "[[''1'', ''bob'', ''pw'']]" and s = idle_io and peer = local_peer and fd = 7]
  show ?thesis
    by (simp add: BUFSIZE_def recording_api_def bob_row_def idle_io_def field_ok_def RG_def CG_def NUL_def c_str_def)
qed

text \<open>
  C20. Registration.  A six-field INSERT request with the name or the device \<open>0000\<close> looks
  the name up and, only when the look-up gives no row, sends the statement that inserts
  name and password; a known name is refused with \<open>e1:fail\<close> and nothing is inserted.
  Any other name and device send one statement, which inserts name, device, p2p id and
  the address of the peer.
\<close>

theorem run_command_insert:
  assumes "atoi cmd = 1" and "85 + length name + length passwd + length dev + length p2p + 15 < BUFSIZE"
    and "SelectData api (sql_find_user name) 3 (dbs s) = Inr (found, db1)"
  shows "run_command api peer fd [cmd, name, passwd, dev, p2p, rest] s =
    (if name \<noteq> ''0000'' \<and> dev \<noteq> ''0000''
     then (case mysql_query api (sql_insert_device name dev p2p (inet_ntoa (peer fd))) (dbs s) of (rc, db2) \<Rightarrow>
             Inr (reply fd (if rc = 0 then ''f0:ok'' else ''e2:fail'') (s\<lparr>dbs := db2\<rparr>)))
     else if found \<noteq> [] then Inr (reply fd ''e1:fail'' (s\<lparr>dbs := db1\<rparr>))
     else (case mysql_query api (sql_insert_user name passwd) db1 of (rc, db2) \<Rightarrow>
             Inr (reply fd (if rc = 0 then ''f0:ok'' else ''e2:fail'') (s\<lparr>dbs := db2\<rparr>))))"
proof -
  let ?dev = "sql_insert_device name dev p2p (inet_ntoa (peer fd))"
  have "length ?dev < BUFSIZE" and "length (sql_find_user name) < BUFSIZE"
    and "length (sql_insert_user name passwd) < BUFSIZE"
    using assms(2) length_sql(1) [of name dev p2p "inet_ntoa (peer fd)"] length_inet_ntoa [of "peer fd"]
      length_sql(2) [of name] length_sql(3) [of name passwd] by linarith+
  note lens = this
  have run: "run_command api peer fd [cmd, name, passwd, dev, p2p, rest] s =
      case_INSERT api fd name passwd dev p2p (inet_ntoa (peer fd)) s"
    using assms(1) by (simp add: run_command_def Let_def)
  show ?thesis
  proof (cases "name \<noteq> ''0000'' \<and> dev \<noteq> ''0000''")
    case True
    then show ?thesis
      using lens by (simp add: run case_INSERT_def sprintf_buf_def insert_and_reply_eq NUL_sql)
  next
    case False
    show ?thesis
      unfolding run case_INSERT_def if_not_P [OF False]
      using lens assms(3) by (simp add: sprintf_buf_def insert_and_reply_eq NUL_sql Let_def split: prod.splits)
  qed
qed

theorem run_command_insert_witness:
  "run_command (recording_api []) local_peer 7 [''1'', ''bob'', ''pw'', ''0000'', ''0'', ''0''] idle_io =
     Inr (reply 7 ''f0:ok'' (idle_io\<lparr>dbs := [sql_find_user ''bob'', sql_insert_user ''bob'' ''pw'']\<rparr>))"
proof -
  have cmd: "atoi ''1'' = 1" by code_simp
  have "SelectData (recording_api []) (sql_find_user ''bob'') 3 (dbs idle_io) = Inr ([], [sql_find_user ''bob''])"
    by code_simp
  from run_command_insert [OF cmd _ this, of "''pw''" "''0000''" "''0''" local_peer 7 "''0''"]
  show ?thesis by (simp add: BUFSIZE_def recording_api_def)
qed

text \<open>
  A three-field INSERT request, command, name and password, never reaches the user
  table: the device id of such a request is empty, hence not \<open>0000\<close>, and the one statement
  sent inserts the name with empty device, p2p id and address into the device table.
\<close>

theorem run_command_insert_three:
  assumes "atoi cmd = 1" and "name \<noteq> ''0000''" and "85 + length name < BUFSIZE"
  shows "run_command api peer fd [cmd, name, passwd] s =
    (case mysql_query api (sql_insert_device name '''' '''' '''') (dbs s) of (rc, db2) \<Rightarrow>
       Inr (reply fd (if rc = 0 then ''f0:ok'' else ''e2:fail'') (s\<lparr>dbs := db2\<rparr>)))"
proof -
  have "length (sql_insert_device name '''' '''' '''') < BUFSIZE"
    using assms(3) length_sql(1) [of name "''''" "''''" "''''"] by simp
  then show ?thesis
    using assms(1,2) by (simp add: run_command_def case_INSERT_def sprintf_buf_def insert_and_reply_eq NUL_sql)
qed

theorem run_command_insert_three_witness:
  "run_command (recording_api []) local_peer 7 [''1'', ''bob'', ''pw''] idle_io =
     Inr (reply 7 ''f0:ok'' (idle_io\<lparr>dbs := [sql_insert_device ''bob'' '''' '''' '''']\<rparr>))"
proof -
  have "atoi ''1'' = 1" by code_simp
  from run_command_insert_three [OF this, of "''bob''" "recording_api []" local_peer 7 "''pw''" idle_io]
  show ?thesis by (simp add: BUFSIZE_def recording_api_def idle_io_def)
qed

text \<open>
  A DELETE request ignores every field it carries: the statement it sends deletes the
  users whose device id is empty, and the client gets no reply.
\<close>

theorem run_command_delete:
  assumes "is_delete vec"
  shows "run_command api peer fd vec s =
    Inr (s\<lparr>dbs := snd (mysql_query api (sql_delete_user '''') (dbs s))\<rparr>)"
proof -
  have "length (sql_delete_user '''') < BUFSIZE" using length_sql(6) [of "''''"] by (simp add: BUFSIZE_def)
  note fits = sprintf_fits [OF this]
  show ?thesis
    using assms fits
    by (auto simp: is_delete_def run_command_def case_DELETE_def DeleteData_def sprintf_buf_def c_str_sql
        bindE_def Let_def split: prod.splits)
qed

theorem run_command_delete_witness:
  "run_command (recording_api []) local_peer 7 [''4'', ''bob'', ''pw''] idle_io =
     Inr (idle_io\<lparr>dbs := [''delete from user_info where device_id = '' @ [CHR 0x27, CHR 0x27]]\<rparr>)"
proof -
  have "is_delete [''4'', ''bob'', ''pw'']" by code_simp
  from run_command_delete [OF this, of "recording_api []" local_peer 7 idle_io]
  show ?thesis by (simp add: recording_api_def idle_io_def sql_delete_user_def quoted_def)
qed

lemma start_routine_total:
  assumes "store_inv st" and "live st bev = Some x" and "cbarg x = a"
    and "length (pool_stack (pool st)) < POOL_MAX" and "wide_results api" and "length chunk \<le> 939"
  shows "\<exists>st' s'. start_routine api peer bev a chunk (st, s) = Inr (st', s')"
proof -
  let ?str = "xor_text chunk"
  have "a \<in> dom (heap st)" using assms(1-3) unfolding store_inv_def by blast
  then obtain c where c: "heap st a = Some c" by blast
  have serve: "\<exists>s'. serve_chunk api peer (sfd c) ?str s = Inr s'"
  proof -
    have "length m + 86 < BUFSIZE" if "m \<in> set (split_tokens CRLF ?str)" for m
      using split_tokens_length [OF that] assms(6) by (simp add: CRLF_def BUFSIZE_def)
    then show ?thesis
      using process_messages_total [OF assms(5)] by (simp add: serve_chunk_def)
  qed
  obtain p where "AddConnToFreelist a (pool st) = Inr (True, p)"
    using fp.put_room [of "pool st" a] assms(1,4) by (auto simp: store_inv_def)
  with c serve show ?thesis
    by (auto simp: start_routine_def Let_def CloseConn_def)
qed

text \<open>
  A read of at most 939 bytes cannot overflow a buffer of the handler.  For a live
  connection, a pool with room, and tables with at least three columns that are not NULL,
  the handler returns: no overflow, no read outside a string, no uncaught exception.
\<close>

theorem start_routine_returns:
  assumes "store_inv st" and "live st bev = Some x" and "cbarg x = a"
    and "length (pool_stack (pool st)) < POOL_MAX" and "wide_results api" and "length chunk \<le> 939"
  shows "\<exists>st' s'. start_routine api peer bev a chunk (st, s) = Inr (st', s')"
  using assms by (rule start_routine_total)

definition buffered_conn :: CONN where
  "buffered_conn = example_conn\<lparr>rBuf := Alloc [], wBuf := Alloc []\<rparr>"

theorem start_routine_returns_witness:
  "\<exists>r. start_routine (recording_api [bob_row]) local_peer 1 1 demo_chunk
     ((start_store static_freelist)\<lparr>heap := [1 \<mapsto> buffered_conn], live := [1 \<mapsto> \<lparr>cbarg = 1, read_timeout = 70\<rparr>]\<rparr>,
      idle_io) = Inr r"
proof -
  let ?st = "(start_store static_freelist)\<lparr>heap := [1 \<mapsto> buffered_conn], live := [1 \<mapsto> \<lparr>cbarg = 1, read_timeout = 70\<rparr>]\<rparr>"
  have inv: "store_inv ?st" by (simp add: store_inv_def buffered_conn_def)
  have wide: "wide_results (recording_api [bob_row])"
    by (simp add: wide_results_def recording_api_def bob_row_def)
  have "length demo_chunk \<le> 939" by code_simp
  from start_routine_returns [OF inv _ _ _ wide this, of 1 "\<lparr>cbarg = 1, read_timeout = 70\<rparr>" 1 local_peer idle_io]
  show ?thesis by (auto simp: POOL_MAX_def)
qed


lemma long_name: "CHR '' '' \<notin> set (replicate k CHR ''a'') \<and> CHR 0x0D \<notin> set (replicate k CHR ''a'') \<and>
    NUL \<notin> set (replicate k CHR ''a'')"
  by (auto simp: NUL_def)


text \<open>
  Password change.  An UPDATE request sends one statement, in which the password and
  the name stand between quotes exactly as the client sent them: a quote in a field ends
  the quoted text, and what follows it is read by the server as SQL.  The reply tells
  whether the server accepted the statement.
\<close>

theorem run_command_update:
  assumes "atoi cmd = 3" and "NUL \<notin> set name" and "NUL \<notin> set passwd"
    and "48 + length name + length passwd < BUFSIZE"
  shows "run_command api peer fd [cmd, name, passwd] s =
    (case mysql_query api (''update user_info set passwd='' @ CHR 0x27 # passwd @ CHR 0x27 #
            '' where name = '' @ CHR 0x27 # name @ [CHR 0x27]) (dbs s) of (rc, db1) \<Rightarrow>
       Inr (reply fd (if rc = 0 then ''f0:ok'' else ''e3:fail'') (s\<lparr>dbs := db1\<rparr>)))"
proof -
  let ?sql = "sql_update_user name passwd"
  have sql: "?sql = ''update user_info set passwd='' @ CHR 0x27 # passwd @ CHR 0x27 #
            '' where name = '' @ CHR 0x27 # name @ [CHR 0x27]"
    using assms(2,3) by (simp add: sql_update_user_def quoted_def c_str_id)
  have "length ?sql < BUFSIZE" using assms(4) length_sql(5) [of name passwd] by linarith
  from sprintf_fits [OF this] have "run_command api peer fd [cmd, name, passwd] s =
    (case mysql_query api ?sql (dbs s) of (rc, db1) \<Rightarrow>
       Inr (reply fd (if rc = 0 then ''f0:ok'' else ''e3:fail'') (s\<lparr>dbs := db1\<rparr>)))"
    using assms(1) by (auto simp: run_command_def case_UPDATE_def UpdateData_def sprintf_buf_def c_str_sql split: prod.splits)
  then show ?thesis unfolding sql .
qed

theorem run_command_update_witness:
  "run_command (recording_api []) local_peer 7 [''3'', ''x'' @ [CHR 0x27] @ '' or 1#'', ''new''] idle_io =
     Inr (reply 7 ''f0:ok'' (idle_io\<lparr>dbs :=
       [''update user_info set passwd='' @ [CHR 0x27] @ ''new'' @ [CHR 0x27] @ '' where name = '' @
        [CHR 0x27] @ ''x'' @ [CHR 0x27] @ '' or 1#'' @ [CHR 0x27]]\<rparr>))"
proof -
  have "atoi ''3'' = 3" by code_simp
  from run_command_update [OF this, of "''x'' @ [CHR 0x27] @ '' or 1#''" "''new''" "recording_api []" local_peer 7 idle_io]
  show ?thesis by (simp add: NUL_def BUFSIZE_def recording_api_def idle_io_def)
qed



end
