(* ===== verification/StdMap.thy ===== *)
theory StdMap
  imports Prelude "HOL-Library.Char_ord" "HOL-Library.List_Lexorder"
begin

section \<open>std::map, the ordered dictionary\<close>

text \<open>
  \<open>std::map<std::string, std::string>\<close> as the list of its entries in iteration order, which
  is the order of the keys: strings compare byte by byte, the order that \<open>Char_ord\<close> and
  \<open>List_Lexorder\<close> give to \<open>string\<close>.  What the clients need is the locale \<open>dictionary\<close>.
\<close>

type_synonym ('k, 'v) std_map = "('k \<times> 'v) list"

fun map_put :: "'k :: linorder \<Rightarrow> 'v \<Rightarrow> ('k, 'v) std_map \<Rightarrow> ('k, 'v) std_map" where
  "map_put k v [] = [(k, v)]"
| "map_put k v ((k', v') # m) =
     (if k < k' then (k, v) # (k', v') # m
      else if k = k' then (k, v) # m
      else (k', v') # map_put k v m)"

fun map_erase :: "'k \<Rightarrow> ('k, 'v) std_map \<Rightarrow> ('k, 'v) std_map" where
  "map_erase k [] = []"
| "map_erase k ((k', v') # m) = (if k = k' then m else (k', v') # map_erase k m)"

definition map_ok :: "('k :: linorder, 'v) std_map \<Rightarrow> bool" where
  "map_ok m = sorted_wrt (<) (map fst m)"

lemma map_ok_simps [simp]:
  "map_ok []"
  "map_ok ((k, v) # m) \<longleftrightarrow> (\<forall>x\<in>set m. k < fst x) \<and> map_ok m"
  by (simp_all add: map_ok_def)

lemma set_map_put: "x \<in> set (map_put k v m) \<Longrightarrow> x = (k, v) \<or> x \<in> set m"
  by (induction m) (auto split: if_splits)

lemma set_map_erase: "x \<in> set (map_erase k m) \<Longrightarrow> x \<in> set m"
  by (induction m) (auto split: if_splits)

lemma map_ok_put: "map_ok m \<Longrightarrow> map_ok (map_put k v m)"
proof (induction m)
  case Nil
  then show ?case by simp
next
  case (Cons e m)
  then show ?case
    by (cases e) (auto dest!: set_map_put intro: less_trans)
qed

lemma map_ok_erase: "map_ok m \<Longrightarrow> map_ok (map_erase k m)"
  by (induction m) (auto dest!: set_map_erase)

lemma map_of_put: "map_of (map_put k v m) = (map_of m)(k \<mapsto> v)"
  by (induction m) auto

lemma map_of_below: "map_ok ((k, v) # m) \<Longrightarrow> map_of m k = None"
  by (auto simp: map_of_eq_None_iff)

lemma map_of_erase: "map_ok m \<Longrightarrow> map_of (map_erase k m) = (map_of m)(k := None)"
  by (induction m) (auto simp: map_of_below fun_eq_iff)

lemma map_ok_unique: "map_ok m \<Longrightarrow> map_ok m' \<Longrightarrow> map_of m = map_of m' \<Longrightarrow> m = m'"
proof -
  assume ok: "map_ok m" "map_ok m'" and eq: "map_of m = map_of m'"
  have sorted: "sorted (map fst m)" "distinct (map fst m)" "sorted (map fst m')" "distinct (map fst m')"
    using ok by (auto simp: map_ok_def strict_sorted_iff)
  have "set m = set m'"
    using eq map_of_eq_Some_iff [OF sorted(2)] map_of_eq_Some_iff [OF sorted(4)] by auto
  with sorted show "m = m'"
    by (intro map_sorted_distinct_set_unique [of fst]) (auto simp: distinct_map inj_on_def)
qed

subsection \<open>The contract of a dictionary\<close>

locale dictionary =
  fixes get :: "'m \<Rightarrow> 'k \<Rightarrow> 'v option"
    and put :: "'k \<Rightarrow> 'v \<Rightarrow> 'm \<Rightarrow> 'm"
    and del :: "'k \<Rightarrow> 'm \<Rightarrow> 'm"
    and ok :: "'m \<Rightarrow> bool"
  assumes get_put: "ok m \<Longrightarrow> get (put k v m) = (get m)(k \<mapsto> v)"
    and ok_put: "ok m \<Longrightarrow> ok (put k v m)"
    and get_del: "ok m \<Longrightarrow> get (del k m) = (get m)(k := None)"
    and ok_del: "ok m \<Longrightarrow> ok (del k m)"
    and unique: "ok m \<Longrightarrow> ok m' \<Longrightarrow> get m = get m' \<Longrightarrow> m = m'"
begin

definition put_all :: "('k \<times> 'v) list \<Rightarrow> 'm \<Rightarrow> 'm" where
  "put_all kvs m = fold (\<lambda>(k, v). put k v) kvs m"

lemma put_all_simps [simp]:
  "put_all [] m = m"
  "put_all ((k, v) # kvs) m = put_all kvs (put k v m)"
  by (simp_all add: put_all_def)

lemma ok_put_all: "ok m \<Longrightarrow> ok (put_all kvs m)"
  by (induction kvs arbitrary: m) (auto simp: ok_put)

lemma get_put_all: "ok m \<Longrightarrow> get (put_all kvs m) = get m ++ map_of (rev kvs)"
proof (induction kvs arbitrary: m)
  case Nil
  then show ?case by simp
next
  case (Cons e kvs)
  then show ?case by (cases e) (auto simp: ok_put get_put fun_eq_iff map_add_def split: option.splits)
qed

lemma put_all_rebuild:
  assumes "ok m" and "ok e" and "get e = (\<lambda>_. None)" and "get m = map_of kvs" and "distinct (map fst kvs)"
  shows "put_all kvs e = m"
proof (rule unique)
  have "map_of (rev kvs) = map_of kvs"
    using assms(5) by (intro map_of_inject_set [THEN iffD2]) (auto simp: rev_map [symmetric])
  with assms show "get (put_all kvs e) = get m"
    by (simp add: get_put_all map_add_def fun_eq_iff split: option.splits)
qed (use assms ok_put_all in auto)

lemma put_same: "ok m \<Longrightarrow> get m k = Some v \<Longrightarrow> put k v m = m"
  by (rule unique) (auto simp: ok_put get_put)

lemma del_absent: "ok m \<Longrightarrow> get m k = None \<Longrightarrow> del k m = m"
  by (rule unique) (auto simp: ok_del get_del)

lemma del_put: "ok m \<Longrightarrow> get m k = None \<Longrightarrow> del k (put k v m) = m"
  by (rule unique) (auto simp: ok_del ok_put get_del get_put)

end

interpretation smap: dictionary map_of map_put map_erase map_ok
  by unfold_locales (auto simp: map_of_put map_ok_put map_of_erase map_ok_erase intro: map_ok_unique)

end
