(* ===== verification/ConfigFile.thy ===== *)
theory ConfigFile
  imports StdMap CxxString
begin

section \<open>config_file.h: named values in a text file\<close>

text \<open>
  \<open>ConfigFile\<close> holds the three separators and the map of the entries.  An input stream is
  its unread text with the two flags that matter here: \<open>eofbit\<close> and \<open>failbit\<close>.  The two
  nested loops of \<open>operator>>\<close> are \<open>load_loop\<close> and \<open>value_loop\<close>; both end, because every
  \<open>getline\<close> on a stream that has not failed reads a character or fails it.  A read of a
  missing key without a default raises \<open>key_not_found\<close>, the error type of the readers.
\<close>

definition NL :: char where
  "NL = CHR 0x0A"

record istream =
  is_rest :: string
  is_eof :: bool
  is_fail :: bool

definition open_stream :: "string \<Rightarrow> istream" where
  "open_stream t = \<lparr>is_rest = t, is_eof = False, is_fail = False\<rparr>"

text \<open>
  \<open>std::getline(is, str)\<close>.  On a stream that is not good the sentry sets \<open>failbit\<close> and
  leaves \<open>str\<close> as it was; otherwise \<open>str\<close> is erased first.
\<close>

definition getline :: "string \<Rightarrow> istream \<Rightarrow> string \<times> istream" where
  "getline str is =
     (if is_eof is \<or> is_fail is then (str, is\<lparr>is_fail := True\<rparr>)
      else if is_rest is = [] then ([], is\<lparr>is_eof := True, is_fail := True\<rparr>)
      else if NL \<in> set (is_rest is)
      then (takeWhile (\<lambda>c. c \<noteq> NL) (is_rest is), is\<lparr>is_rest := tl (dropWhile (\<lambda>c. c \<noteq> NL) (is_rest is))\<rparr>)
      else (is_rest is, is\<lparr>is_rest := [], is_eof := True\<rparr>))"

definition trim :: "string \<Rightarrow> string" where
  "trim s = rev (dropWhile is_space (rev (dropWhile is_space s)))"

record ConfigFile =
  myDelimiter :: string
  myComment :: string
  mySentry :: string
  myContents :: "(string, string) std_map"

text \<open>The constructor without a file: no sentry.\<close>

definition empty_config :: ConfigFile where
  "empty_config = \<lparr>myDelimiter = ''='', myComment = ''#'', mySentry = '''', myContents = []\<rparr>"

subsection \<open>Reading a file\<close>

definition is_sentry :: "ConfigFile \<Rightarrow> string \<Rightarrow> bool" where
  "is_sentry cf line \<longleftrightarrow> mySentry cf \<noteq> [] \<and> find_str (mySentry cf) line \<noteq> None"

definition stream_measure :: "istream \<Rightarrow> nat" where
  "stream_measure is = length (is_rest is) + (if is_fail is then 0 else 1)"

lemma getline_measure: "\<not> is_fail is \<Longrightarrow> stream_measure (snd (getline str is)) < stream_measure is"
  using length_dropWhile_le [of "\<lambda>c. c \<noteq> NL" "is_rest is"]
  by (cases "dropWhile (\<lambda>c. c \<noteq> NL) (is_rest is)") (auto simp: getline_def stream_measure_def)

text \<open>
  The loop that looks for the rest of a value: it gives the line read ahead, the value,
  and the stream.
\<close>

function value_loop :: "ConfigFile \<Rightarrow> string \<Rightarrow> string \<Rightarrow> istream \<Rightarrow> string \<times> string \<times> istream" where
  "value_loop cf nextline line is =
     (if is_fail is then (nextline, line, is)
      else (case getline nextline is of
        (nl, is1) \<Rightarrow>
          if trim nl = [] then (nl, line, is1)
          else let nl1 = before (myComment cf) nl
               in if find_str (myDelimiter cf) nl1 \<noteq> None then (nl1, line, is1)
                  else if is_sentry cf nl1 then (nl1, line, is1)
                  else value_loop cf nl1 (line @ (if trim nl1 \<noteq> [] then [NL] else []) @ nl1) is1))"
  by pat_completeness auto

termination
  by (relation "measure (\<lambda>(cf, nl, line, is). stream_measure is)") (simp_all, metis getline_measure snd_conv)

declare value_loop.simps [simp del]

lemma value_loop_failed: "is_fail is \<Longrightarrow> value_loop cf nextline line is = (nextline, line, is)"
  by (simp add: value_loop.simps)

text \<open>A line that ends a value: blank, or an entry of its own, or the sentry.\<close>

definition ends_value :: "ConfigFile \<Rightarrow> string \<Rightarrow> bool" where
  "ends_value cf nl \<longleftrightarrow> trim nl = [] \<or> find_str (myDelimiter cf) (before (myComment cf) nl) \<noteq> None \<or>
     is_sentry cf (before (myComment cf) nl)"

definition continued :: "ConfigFile \<Rightarrow> string \<Rightarrow> string \<Rightarrow> string" where
  "continued cf line nl =
     line @ (if trim (before (myComment cf) nl) \<noteq> [] then [NL] else []) @ before (myComment cf) nl"

lemma value_loop_step:
  assumes "\<not> is_fail is" and "getline nextline is = (nl, is1)"
  shows "value_loop cf nextline line is =
    (if ends_value cf nl then (if trim nl = [] then nl else before (myComment cf) nl, line, is1)
     else value_loop cf (before (myComment cf) nl) (continued cf line nl) is1)"
  using assms by (subst value_loop.simps) (auto simp: Let_def ends_value_def continued_def)

lemma value_loop_measure:
  "value_loop cf nextline line is = (nl, v, is1) \<Longrightarrow>
     stream_measure is1 \<le> stream_measure is \<and> (\<not> is_fail is \<longrightarrow> stream_measure is1 < stream_measure is)"
proof (induction "stream_measure is" arbitrary: nextline line "is" rule: less_induct)
  case less
  show ?case
  proof (cases "is_fail is")
    case True
    with less.prems show ?thesis by (simp add: value_loop_failed)
  next
    case False
    obtain nl0 is0 where g: "getline nextline is = (nl0, is0)" by fastforce
    have lt: "stream_measure is0 < stream_measure is"
      using getline_measure [OF False, of nextline] g by simp
    show ?thesis
    proof (cases "ends_value cf nl0")
      case True
      with less.prems lt value_loop_step [OF False g, of cf line] show ?thesis by simp
    next
      case ends: False
      with less.prems value_loop_step [OF False g, of cf line]
      have "value_loop cf (before (myComment cf) nl0) (continued cf line nl0) is0 = (nl, v, is1)" by simp
      from less.hyps [OF lt this] lt show ?thesis by simp
    qed
  qed
qed

definition load_measure :: "string \<Rightarrow> istream \<Rightarrow> nat" where
  "load_measure nextline is = 2 * stream_measure is + (if nextline = [] then 0 else 1)"

lemma load_measure_drop:
  assumes "\<not> (is_fail is \<and> nextline = [])"
    and "(line0, is0) = (if nextline \<noteq> [] then (nextline, is) else getline [] is)"
  shows "load_measure [] is0 < load_measure nextline is"
    and "(nl, w) = value_loop cf [] line is0 \<Longrightarrow> (v, is1) = w \<Longrightarrow> load_measure nl is1 < load_measure nextline is"
proof -
  have drop: "stream_measure is0 < stream_measure is \<or> is0 = is \<and> nextline \<noteq> []"
    using assms getline_measure [of "is" "[]"] by (auto split: if_splits dest: arg_cong [of _ _ snd])
  then show "load_measure [] is0 < load_measure nextline is"
    by (auto simp: load_measure_def)
  assume "(nl, w) = value_loop cf [] line is0" and "(v, is1) = w"
  then have v: "value_loop cf [] line is0 = (nl, v, is1)" by simp
  show "load_measure nl is1 < load_measure nextline is"
  proof (cases "is_fail is0")
    case True
    with v have "nl = []" "is1 = is0" by (auto simp: value_loop_failed)
    with drop show ?thesis by (auto simp: load_measure_def)
  next
    case False
    with value_loop_measure [OF v] drop show ?thesis by (auto simp: load_measure_def)
  qed
qed

text \<open>The outer loop; \<open>nextline\<close> is the line that was read ahead.\<close>

function load_loop :: "string \<Rightarrow> istream \<Rightarrow> ConfigFile \<Rightarrow> istream \<times> ConfigFile" where
  "load_loop nextline is cf =
     (if is_fail is \<and> nextline = [] then (is, cf)
      else (case (if nextline \<noteq> [] then (nextline, is) else getline [] is) of
        (line0, is0) \<Rightarrow>
          let line = before (myComment cf) line0
          in if is_sentry cf line then (is0, cf)
             else (case find_str (myDelimiter cf) line of
                 None \<Rightarrow> load_loop [] is0 cf
               | Some delimPos \<Rightarrow>
                   (case value_loop cf [] (drop (delimPos + length (myDelimiter cf)) line) is0 of
                      (nl, v, is1) \<Rightarrow>
                        load_loop nl is1
                          (cf\<lparr>myContents := map_put (trim (take delimPos line)) (trim v) (myContents cf)\<rparr>)))))"
  by pat_completeness auto

termination
  by (relation "measure (\<lambda>(nextline, is, cf). load_measure nextline is)")
    (simp_all only: wf_measure in_measure prod.case, (rule load_measure_drop; assumption)+)

declare load_loop.simps [simp del]

definition load_config :: "istream \<Rightarrow> ConfigFile \<Rightarrow> istream \<times> ConfigFile" where
  "load_config is cf = load_loop [] is cf"

datatype cfg_error = file_not_found string | key_not_found string

text \<open>
  The constructor with a file name; \<open>files\<close> gives the text of every file that can be opened.
\<close>

definition open_config ::
  "(string \<Rightarrow> string option) \<Rightarrow> string \<Rightarrow> string \<Rightarrow> string \<Rightarrow> string \<Rightarrow> cfg_error + ConfigFile" where
  "open_config files filename delimiter comment sentry =
     (case files filename of
        None \<Rightarrow> Inl (file_not_found filename)
      | Some t \<Rightarrow> Inr (snd (load_config (open_stream t)
          \<lparr>myDelimiter = delimiter, myComment = comment, mySentry = sentry, myContents = []\<rparr>)))"

subsection \<open>Writing a file\<close>

definition entry_line :: "ConfigFile \<Rightarrow> string \<times> string \<Rightarrow> string" where
  "entry_line cf e = fst e @ '' '' @ myDelimiter cf @ '' '' @ snd e"

definition write_config :: "ConfigFile \<Rightarrow> string" where
  "write_config cf = concat (map (\<lambda>e. entry_line cf e @ [NL]) (myContents cf))"

subsection \<open>Values\<close>

definition string_as_int :: "string \<Rightarrow> int outcome" where
  "string_as_int s = (case istream_int s of None \<Rightarrow> Inl UninitialisedRead | Some t \<Rightarrow> Inr t)"

definition string_as_string :: "string \<Rightarrow> string outcome" where
  "string_as_string s = Inr s"

definition toupper :: "char \<Rightarrow> char" where
  "toupper c = (if 97 \<le> (of_char c :: nat) \<and> (of_char c :: nat) \<le> 122 then char_of ((of_char c :: nat) - 32) else c)"

definition string_as_bool :: "string \<Rightarrow> bool outcome" where
  "string_as_bool s = Inr (map toupper s \<notin> {''FALSE'', ''F'', ''NO'', ''N'', ''0'', ''NONE''})"

text \<open>The template parameter \<open>T\<close> of the readers is the conversion \<open>conv\<close>.\<close>

definition read_key :: "(string \<Rightarrow> 'a outcome) \<Rightarrow> string \<Rightarrow> ConfigFile \<Rightarrow> (cfg_error + 'a) outcome" where
  "read_key conv key cf =
     (case map_of (myContents cf) key of
        None \<Rightarrow> Inr (Inl (key_not_found key))
      | Some s \<Rightarrow> bindE (conv s) (\<lambda>t. Inr (Inr t)))"

definition read_default :: "(string \<Rightarrow> 'a outcome) \<Rightarrow> string \<Rightarrow> 'a \<Rightarrow> ConfigFile \<Rightarrow> 'a outcome" where
  "read_default conv key val cf =
     (case map_of (myContents cf) key of None \<Rightarrow> Inr val | Some s \<Rightarrow> conv s)"

definition readInto :: "(string \<Rightarrow> 'a outcome) \<Rightarrow> 'a \<Rightarrow> string \<Rightarrow> ConfigFile \<Rightarrow> (bool \<times> 'a) outcome" where
  "readInto conv var key cf =
     (case map_of (myContents cf) key of
        None \<Rightarrow> Inr (False, var)
      | Some s \<Rightarrow> bindE (conv s) (\<lambda>t. Inr (True, t)))"

definition readInto_default :: "(string \<Rightarrow> 'a outcome) \<Rightarrow> string \<Rightarrow> 'a \<Rightarrow> ConfigFile \<Rightarrow> (bool \<times> 'a) outcome" where
  "readInto_default conv key val cf =
     (case map_of (myContents cf) key of
        None \<Rightarrow> Inr (False, val)
      | Some s \<Rightarrow> bindE (conv s) (\<lambda>t. Inr (True, t)))"

subsection \<open>Changing the entries and the syntax\<close>

definition add_key :: "string \<Rightarrow> string \<Rightarrow> ConfigFile \<Rightarrow> ConfigFile" where
  "add_key key v cf = cf\<lparr>myContents := map_put (trim key) (trim v) (myContents cf)\<rparr>"

definition add_int :: "string \<Rightarrow> int \<Rightarrow> ConfigFile \<Rightarrow> ConfigFile" where
  "add_int key val cf = add_key key (int_text val) cf"

text \<open>\<open>erase(end())\<close> is undefined.\<close>

definition remove_key :: "string \<Rightarrow> ConfigFile \<Rightarrow> ConfigFile outcome" where
  "remove_key key cf =
     (if map_of (myContents cf) key = None then Inl EraseEnd
      else Inr (cf\<lparr>myContents := map_erase key (myContents cf)\<rparr>))"

definition keyExists :: "string \<Rightarrow> ConfigFile \<Rightarrow> bool" where
  "keyExists key cf \<longleftrightarrow> map_of (myContents cf) key \<noteq> None"

definition setDelimiter :: "string \<Rightarrow> ConfigFile \<Rightarrow> string \<times> ConfigFile" where
  "setDelimiter s cf = (myDelimiter cf, cf\<lparr>myDelimiter := s\<rparr>)"

definition setComment :: "string \<Rightarrow> ConfigFile \<Rightarrow> string \<times> ConfigFile" where
  "setComment s cf = (myComment cf, cf\<lparr>myComment := s\<rparr>)"

subsection \<open>Trimming\<close>

lemma trim_Nil [simp]: "trim [] = []"
  by (simp add: trim_def)

lemma dropWhile_snoc: "dropWhile P (s @ [c]) = (if dropWhile P s = [] then dropWhile P [c] else dropWhile P s @ [c])"
  by (induction s) auto

lemma trim_snoc: "is_space c \<Longrightarrow> trim (s @ [c]) = trim s"
  by (cases "dropWhile is_space s = []") (simp_all only: trim_def dropWhile_snoc if_True if_False,
      simp_all)

lemma trim_Cons: "is_space c \<Longrightarrow> trim (c # s) = trim s"
  by (simp add: trim_def)

lemma trim_id: "s = [] \<or> \<not> is_space (hd s) \<and> \<not> is_space (last s) \<Longrightarrow> trim s = s"
proof (cases s rule: rev_cases)
  case (snoc t c)
  assume "s = [] \<or> \<not> is_space (hd s) \<and> \<not> is_space (last s)"
  with snoc show ?thesis by (cases t) (auto simp: trim_def)
qed simp

lemma dropWhile_hd: "dropWhile P s = c # u \<Longrightarrow> \<not> P c"
  by (induction s) (auto split: if_splits)

lemma trim_ends: "trim s \<noteq> [] \<Longrightarrow> \<not> is_space (hd (trim s)) \<and> \<not> is_space (last (trim s))"
proof -
  assume ne: "trim s \<noteq> []"
  define t where "t = dropWhile is_space s"
  obtain c u where cu: "dropWhile is_space (rev t) = c # u"
    using ne by (cases "dropWhile is_space (rev t)") (auto simp: trim_def t_def)
  have "rev t = takeWhile is_space (rev t) @ c # u" using cu by (metis takeWhile_dropWhile_id)
  from arg_cong [OF this, of rev] have t: "t = (rev u @ [c]) @ rev (takeWhile is_space (rev t))"
    by simp
  obtain a r where ar: "rev u @ [c] = a # r" by (cases "rev u @ [c]") auto
  with t have "t = a # (r @ rev (takeWhile is_space (rev t)))" by simp
  from dropWhile_hd [OF this [unfolded t_def]] have "\<not> is_space a" .
  moreover have "trim s = rev u @ [c]" using cu by (simp add: trim_def t_def)
  ultimately show ?thesis using ar dropWhile_hd [OF cu] by (metis last_snoc list.sel(1))
qed

lemma trim_idem [simp]: "trim (trim s) = trim s"
  using trim_ends [of s] by (intro trim_id) blast

lemma trimmed: "trim s = s \<Longrightarrow> s = [] \<or> \<not> is_space (hd s) \<and> \<not> is_space (last s)"
  using trim_ends [of s] by auto

end
