(* ===== verification/ConfigProps.thy ===== *)
theory ConfigProps
  imports ConfigFile
begin

section \<open>Properties of ConfigFile\<close>

text \<open>
  Round trip of \<open>operator<<\<close> and \<open>operator>>\<close>, the invariant of the entries, the readers,
  and what a missing last line end does to a value of several lines.
\<close>

subsection \<open>Streams and steps of the loader\<close>

definition at_end :: "istream" where
  "at_end = \<lparr>is_rest = [], is_eof = True, is_fail = True\<rparr>"

lemma stream_simps [simp]:
  "is_fail (open_stream t) = False" "is_eof (open_stream t) = False" "is_rest (open_stream t) = t"
  "is_fail at_end = True"
  by (simp_all add: open_stream_def at_end_def)

lemma getline_line: "NL \<notin> set l \<Longrightarrow> getline str (open_stream (l @ NL # t)) = (l, open_stream t)"
  by (auto simp: getline_def open_stream_def takeWhile_id dropWhile_append)

lemma getline_empty: "getline str (open_stream []) = ([], at_end)"
  by (simp add: getline_def open_stream_def at_end_def)

lemma getline_last: "NL \<notin> set l \<Longrightarrow> l \<noteq> [] \<Longrightarrow>
    getline str (open_stream l) = (l, \<lparr>is_rest = [], is_eof = True, is_fail = False\<rparr>)"
  by (simp add: getline_def open_stream_def)

lemma getline_eof: "getline str \<lparr>is_rest = [], is_eof = True, is_fail = False\<rparr> = (str, at_end)"
  by (simp add: getline_def at_end_def)

lemmas getline_rules = getline_line getline_empty getline_last getline_eof

lemma load_loop_end: "is_fail is \<Longrightarrow> load_loop [] is cf = (is, cf)"
  by (subst load_loop.simps) simp

lemma load_loop_ahead:
  assumes "\<not> is_fail is" and "getline [] is = (l, is0)" and "l \<noteq> []"
  shows "load_loop [] is cf = load_loop l is0 cf"
  using assms by (subst (1 2) load_loop.simps) simp

definition store_entry :: "string \<Rightarrow> string \<Rightarrow> ConfigFile \<Rightarrow> ConfigFile" where
  "store_entry k v cf = cf\<lparr>myContents := map_put (trim k) (trim v) (myContents cf)\<rparr>"

lemma load_loop_entry:
  assumes "l \<noteq> []" and "before (myComment cf) l = line" and "\<not> is_sentry cf line"
    and "find_str (myDelimiter cf) line = Some p"
    and "value_loop cf [] (drop (p + length (myDelimiter cf)) line) is = (nl, v, is1)"
  shows "load_loop l is cf = load_loop nl is1 (store_entry (take p line) v cf)"
  using assms by (subst load_loop.simps) (simp add: store_entry_def)

lemma load_loop_skip:
  assumes "l \<noteq> []" and "\<not> is_sentry cf (before (myComment cf) l)"
    and "find_str (myDelimiter cf) (before (myComment cf) l) = None"
  shows "load_loop l is cf = load_loop [] is cf"
  using assms by (subst load_loop.simps) simp

text \<open>The separators of a configuration never change while it is loaded.\<close>

lemma same_syntax [simp]:
  "myDelimiter (store_entry k v cf) = myDelimiter cf" "myComment (store_entry k v cf) = myComment cf"
  "mySentry (store_entry k v cf) = mySentry cf"
  "myContents (store_entry k v cf) = map_put (trim k) (trim v) (myContents cf)"
  "is_sentry (store_entry k v cf) = is_sentry cf" "entry_line (store_entry k v cf) = entry_line cf"
  by (simp_all add: store_entry_def is_sentry_def entry_line_def fun_eq_iff)

subsection \<open>Round trip\<close>

text \<open>
  An entry that survives writing and reading: key and value are trimmed, its line has no
  line end, no comment and no sentry, and the first delimiter is the one that was written.
\<close>

definition clean_entry :: "ConfigFile \<Rightarrow> string \<times> string \<Rightarrow> bool" where
  "clean_entry cf e \<longleftrightarrow> trim (fst e) = fst e \<and> trim (snd e) = snd e \<and> NL \<notin> set (entry_line cf e) \<and>
     find_str (myComment cf) (entry_line cf e) = None \<and> \<not> is_sentry cf (entry_line cf e) \<and>
     find_str (myDelimiter cf) (entry_line cf e) = Some (length (fst e) + 1)"

lemma clean_entry_store [simp]: "clean_entry (store_entry k v cf) = clean_entry cf"
  by (simp add: clean_entry_def fun_eq_iff)

lemma entry_line_nonempty [simp]: "entry_line cf e \<noteq> []"
  by (simp add: entry_line_def)

lemma is_space_blank [simp]: "is_space (CHR '' '')" "is_space NL"
  by (simp_all add: is_space_def NL_def)

lemma clean_entry_line:
  assumes "clean_entry cf e"
  shows "before (myComment cf) (entry_line cf e) = entry_line cf e"
    and "ends_value cf (entry_line cf e)"
    and "take (length (fst e) + 1) (entry_line cf e) = fst e @ '' ''"
    and "drop (length (fst e) + 1 + length (myDelimiter cf)) (entry_line cf e) = CHR '' '' # snd e"
proof -
  show b: "before (myComment cf) (entry_line cf e) = entry_line cf e"
    using assms by (simp add: clean_entry_def before_def)
  show "ends_value cf (entry_line cf e)"
    using assms by (simp add: ends_value_def b clean_entry_def)
qed (simp_all add: entry_line_def)

lemma store_clean:
  "clean_entry cf e \<Longrightarrow> store_entry (fst e @ '' '') (CHR '' '' # snd e) cf =
     cf\<lparr>myContents := map_put (fst e) (snd e) (myContents cf)\<rparr>"
  by (simp add: store_entry_def clean_entry_def trim_snoc trim_Cons)

abbreviation lines_text :: "ConfigFile \<Rightarrow> (string \<times> string) list \<Rightarrow> string" where
  "lines_text cf es \<equiv> concat (map (\<lambda>e. entry_line cf e @ [NL]) es)"

lemma value_loop_lines:
  assumes "list_all (clean_entry cf) es"
  shows "value_loop cf [] v (open_stream (lines_text cf es)) =
    (case es of [] \<Rightarrow> ([], v, at_end)
     | e # es' \<Rightarrow> (entry_line cf e, v, open_stream (lines_text cf es')))"
proof (cases es)
  case Nil
  have "ends_value cf []" by (simp add: ends_value_def)
  then show ?thesis
    using Nil value_loop_step [of "open_stream []" "[]" "[]" at_end cf v] by (simp add: getline_empty)
next
  case (Cons e es')
  then have e: "clean_entry cf e" using assms by simp
  then have "getline [] (open_stream (lines_text cf es)) = (entry_line cf e, open_stream (lines_text cf es'))"
    using Cons getline_line by (simp add: clean_entry_def)
  from value_loop_step [OF _ this, of cf v] show ?thesis
    using Cons clean_entry_line [OF e] by simp
qed

lemma load_lines:
  "list_all (clean_entry cf) (e # es) \<Longrightarrow>
     load_loop (entry_line cf e) (open_stream (lines_text cf es)) cf =
       (at_end, cf\<lparr>myContents := smap.put_all (e # es) (myContents cf)\<rparr>)"
proof (induction es arbitrary: e cf)
  case Nil
  then have e: "clean_entry cf e" by simp
  have "load_loop (entry_line cf e) (open_stream []) cf = load_loop [] at_end (store_entry (fst e @ '' '') (CHR '' '' # snd e) cf)"
    by (rule load_loop_entry [OF entry_line_nonempty clean_entry_line(1) [OF e], of "length (fst e) + 1", unfolded clean_entry_line(3,4) [OF e]])
      (use e value_loop_lines [of cf "[]"] in \<open>simp_all add: clean_entry_def\<close>)
  then show ?case using store_clean [OF e] by (cases e) (simp add: load_loop_end)
next
  case (Cons e' es)
  then have e: "clean_entry cf e" and es: "list_all (clean_entry cf) (e' # es)" by simp_all
  let ?cf = "store_entry (fst e @ '' '') (CHR '' '' # snd e) cf"
  have "load_loop (entry_line cf e) (open_stream (lines_text cf (e' # es))) cf =
      load_loop (entry_line cf e') (open_stream (lines_text cf es)) ?cf"
    by (rule load_loop_entry [OF entry_line_nonempty clean_entry_line(1) [OF e], of "length (fst e) + 1", unfolded clean_entry_line(3,4) [OF e]])
      (use e es value_loop_lines [of cf "e' # es"] in \<open>simp_all add: clean_entry_def\<close>)
  also have "\<dots> = (at_end, ?cf\<lparr>myContents := smap.put_all (e' # es) (myContents ?cf)\<rparr>)"
    using Cons.IH [of ?cf e'] es by simp
  also have "\<dots> = (at_end, cf\<lparr>myContents := smap.put_all (e # e' # es) (myContents cf)\<rparr>)"
    using store_clean [OF e] by (cases e) simp
  finally show ?case .
qed

lemma load_loop_nothing:
  assumes "myDelimiter cf \<noteq> []"
  shows "load_loop [] (open_stream []) cf = (at_end, cf)"
proof -
  have "before (myComment cf) [] = []" by (simp add: before_def split: option.splits)
  moreover have "\<not> is_sentry cf []" "find_str (myDelimiter cf) [] = None"
    using assms by (simp_all add: is_sentry_def)
  ultimately show ?thesis
    by (subst load_loop.simps) (simp add: getline_empty load_loop_end)
qed

lemma load_written:
  assumes "list_all (clean_entry cf) es" and "myDelimiter cf \<noteq> []"
  shows "load_config (open_stream (lines_text cf es)) cf =
    (at_end, cf\<lparr>myContents := smap.put_all es (myContents cf)\<rparr>)"
proof (cases es)
  case Nil
  then show ?thesis using load_loop_nothing [OF assms(2)] by (simp add: load_config_def)
next
  case (Cons e es')
  then have e: "clean_entry cf e" using assms by simp
  then have "getline [] (open_stream (lines_text cf es)) = (entry_line cf e, open_stream (lines_text cf es'))"
    using Cons getline_line by (simp add: clean_entry_def)
  from load_loop_ahead [OF _ this, of cf] load_lines [of cf e es'] show ?thesis
    using Cons assms by (simp add: load_config_def)
qed

lemma same_syntax_update [simp]:
  "clean_entry (cf\<lparr>myContents := m\<rparr>) = clean_entry cf" "entry_line (cf\<lparr>myContents := m\<rparr>) = entry_line cf"
  by (simp_all add: clean_entry_def entry_line_def is_sentry_def fun_eq_iff)

text \<open>
  C28. A configuration whose entries are clean is read back from the text that
  \<open>operator<<\<close> writes exactly as it was, and the stream ends at the end of the text.
\<close>

theorem config_roundtrip:
  assumes "map_ok (myContents cf)" and "list_all (clean_entry cf) (myContents cf)" and "myDelimiter cf \<noteq> []"
  shows "load_config (open_stream (write_config cf)) (cf\<lparr>myContents := []\<rparr>) = (at_end, cf)"
proof -
  have "distinct (map fst (myContents cf))"
    using assms(1) by (simp add: map_ok_def strict_sorted_iff)
  then have "smap.put_all (myContents cf) [] = myContents cf"
    using assms(1) by (intro smap.put_all_rebuild) auto
  then show ?thesis
    using load_written [of "cf\<lparr>myContents := []\<rparr>" "myContents cf"] assms(2,3)
    by (simp add: write_config_def)
qed

definition demo_config :: ConfigFile where
  "demo_config = empty_config\<lparr>myContents := [(''remote.listen.port'', ''12006''), (''worker.thread.num'', ''4'')]\<rparr>"

theorem config_roundtrip_witness:
  "load_config (open_stream (write_config demo_config)) empty_config = (at_end, demo_config)"
proof -
  have "map_ok (myContents demo_config)" "list_all (clean_entry demo_config) (myContents demo_config)"
    "myDelimiter demo_config \<noteq> []" "demo_config\<lparr>myContents := []\<rparr> = empty_config"
    by code_simp+
  with config_roundtrip [of demo_config] show ?thesis by simp
qed

subsection \<open>Invariant\<close>

definition config_ok :: "ConfigFile \<Rightarrow> bool" where
  "config_ok cf \<longleftrightarrow> map_ok (myContents cf) \<and> (\<forall>(k, v)\<in>set (myContents cf). trim k = k \<and> trim v = v)"

lemma config_ok_store: "config_ok cf \<Longrightarrow> config_ok (store_entry k v cf)"
  by (auto simp: config_ok_def map_ok_put dest!: set_map_put)

lemma add_key_store: "add_key k v cf = store_entry k v cf"
  by (simp add: add_key_def store_entry_def)

text \<open>One round of the outer loop stops, skips a line, or stores an entry; the rest is smaller.\<close>

lemma load_loop_round:
  "snd (load_loop nextline is cf) = cf \<or>
   (\<exists>is'. load_measure [] is' < load_measure nextline is \<and> load_loop nextline is cf = load_loop [] is' cf) \<or>
   (\<exists>nl is' k v. load_measure nl is' < load_measure nextline is \<and>
      load_loop nextline is cf = load_loop nl is' (store_entry k v cf))"
proof (cases "is_fail is \<and> nextline = []")
  case True
  then show ?thesis by (simp add: load_loop_end)
next
  case False
  obtain line0 is0 where l: "(line0, is0) = (if nextline \<noteq> [] then (nextline, is) else getline [] is)"
    by (metis surj_pair)
  let ?line = "before (myComment cf) line0"
  note unfold = load_loop.simps [of nextline "is" cf, unfolded if_not_P [OF False] l [symmetric] prod.case Let_def]
  show ?thesis
  proof (cases "is_sentry cf ?line")
    case True
    then show ?thesis by (simp add: unfold)
  next
    case no_sentry: False
    show ?thesis
    proof (cases "find_str (myDelimiter cf) ?line")
      case None
      then show ?thesis using no_sentry load_measure_drop(1) [OF False l] by (auto simp: unfold)
    next
      case (Some p)
      obtain nl v is1 where v: "value_loop cf [] (drop (p + length (myDelimiter cf)) ?line) is0 = (nl, v, is1)"
        by (metis surj_pair)
      then have "load_loop nextline is cf = load_loop nl is1 (store_entry (take p ?line) v cf)"
        using no_sentry Some by (simp add: unfold store_entry_def)
      with load_measure_drop(2) [OF False l v [symmetric] refl] show ?thesis by blast
    qed
  qed
qed

lemma load_loop_preserves:
  assumes "\<And>cf k v. P cf \<Longrightarrow> P (store_entry k v cf)"
  shows "P cf \<Longrightarrow> P (snd (load_loop nextline is cf))"
proof (induction "load_measure nextline is" arbitrary: nextline "is" cf rule: less_induct)
  case less
  from load_loop_round [of nextline "is" cf] show ?case
    using less assms by (elim disjE exE conjE) simp_all
qed

text \<open>
  C31. Whatever the text is, loading it returns, keeps the entries sorted by key with each
  key once and keys and values without outer white space, and loses no key that was there
  before; so do \<open>add\<close> and, for the entry it removes, \<open>remove\<close>.
\<close>

theorem config_ok_operations:
  assumes "config_ok cf"
  shows "config_ok (snd (load_config is cf)) \<and>
    (\<forall>key. keyExists key cf \<longrightarrow> keyExists key (snd (load_config is cf))) \<and>
    config_ok (add_key k v cf) \<and>
    (\<forall>cf'. remove_key k cf = Inr cf' \<longrightarrow> config_ok cf' \<and> \<not> keyExists k cf' \<and>
       (\<forall>key. key \<noteq> k \<longrightarrow> keyExists key cf' = keyExists key cf))"
proof -
  have ok: "config_ok (snd (load_config is cf))"
    unfolding load_config_def by (rule load_loop_preserves) (auto intro: config_ok_store assms)
  have "keyExists key (snd (load_config is cf))" if "keyExists key cf" for key
    unfolding load_config_def
    by (rule load_loop_preserves [where P = "keyExists key"])
      (use that in \<open>auto simp: keyExists_def map_of_put\<close>)
  moreover have "config_ok cf' \<and> \<not> keyExists k cf' \<and> (\<forall>key. key \<noteq> k \<longrightarrow> keyExists key cf' = keyExists key cf)"
    if "remove_key k cf = Inr cf'" for cf'
  proof -
    from that have cf': "cf' = cf\<lparr>myContents := map_erase k (myContents cf)\<rparr>"
      by (simp add: remove_key_def split: if_splits)
    have "map_ok (myContents cf)" using assms by (simp add: config_ok_def)
    then show ?thesis
      using assms unfolding cf'
      by (auto simp: config_ok_def keyExists_def map_of_erase map_ok_erase dest!: set_map_erase)
  qed
  ultimately show ?thesis
    using ok config_ok_store [OF assms] by (simp add: add_key_store)
qed

theorem config_ok_operations_witness:
  "config_ok (snd (load_config (open_stream ''a = 1'') demo_config))"
proof -
  have "config_ok demo_config" by code_simp
  from config_ok_operations [OF this, of "open_stream ''a = 1''" "''a''" "''b''"] show ?thesis by blast
qed

subsection \<open>Loading over old entries, and the last line\<close>

text \<open>
  Loading a text of clean entry lines, as a reload does, gives every key the value of
  its last line and leaves the keys that the text does not name as they were.
\<close>

theorem config_load_entries:
  assumes "map_ok (myContents cf)" and "list_all (clean_entry cf) es" and "myDelimiter cf \<noteq> []"
  shows "map_of (myContents (snd (load_config (open_stream (concat (map (\<lambda>e. entry_line cf e @ [NL]) es))) cf))) =
    map_of (myContents cf) ++ map_of (rev es)"
  using load_written [OF assms(2,3)] smap.get_put_all [OF assms(1), of es] by simp

theorem config_load_entries_witness:
  "map_of (myContents (snd (load_config (open_stream (''a = 1'' @ [NL] @ ''a = 2'' @ [NL])) demo_config))) ''a'' = Some ''2''"
proof -
  let ?es = "[(''a'', ''1''), (''a'', ''2'')]"
  have "map_ok (myContents demo_config)" "list_all (clean_entry demo_config) ?es" "myDelimiter demo_config \<noteq> []"
    by code_simp+
  note load = config_load_entries [OF this]
  have "concat (map (\<lambda>e. entry_line demo_config e @ [NL]) ?es) = ''a = 1'' @ [NL] @ ''a = 2'' @ [NL]"
    by code_simp
  from load [unfolded this] show ?thesis by simp
qed

text \<open>A line that only continues a value.\<close>

definition plain_line :: "ConfigFile \<Rightarrow> string \<Rightarrow> bool" where
  "plain_line cf c \<longleftrightarrow> c \<noteq> [] \<and> trim c = c \<and> NL \<notin> set c \<and> find_str (myComment cf) c = None \<and>
     find_str (myDelimiter cf) c = None \<and> \<not> is_sentry cf c"

lemma plain_line_continues:
  assumes "plain_line cf c"
  shows "before (myComment cf) c = c" and "\<not> ends_value cf c" and "continued cf v c = v @ NL # c"
proof -
  show "before (myComment cf) c = c" using assms by (simp add: plain_line_def before_def)
  then show "\<not> ends_value cf c" "continued cf v c = v @ NL # c"
    using assms by (simp_all add: plain_line_def ends_value_def continued_def)
qed

lemma trim_lines:
  assumes "trim v = v" and "v \<noteq> []" and "trim c = c" and "c \<noteq> []"
  shows "trim (CHR '' '' # v @ w @ c) = v @ w @ c"
proof -
  have "trim (v @ w @ c) = v @ w @ c"
    using trimmed [OF assms(1)] trimmed [OF assms(3)] assms(2,4) by (intro trim_id) simp
  then show ?thesis by (simp add: trim_Cons)
qed

lemma load_two_lines:
  assumes e: "clean_entry cf (k, v)"
    and first: "getline [] is = (entry_line cf (k, v), is1)" "\<not> is_fail is"
    and val: "value_loop cf [] (CHR '' '' # v) is1 = (nl, w, at_end)"
    and nl: "nl = [] \<or> plain_line cf nl"
  shows "load_config is cf = (at_end, store_entry (k @ '' '') w cf)"
proof -
  have "load_config is cf = load_loop (entry_line cf (k, v)) is1 cf"
    unfolding load_config_def by (rule load_loop_ahead [OF first(2,1)]) simp
  also have "\<dots> = load_loop nl at_end (store_entry (k @ '' '') w cf)"
    using load_loop_entry [OF entry_line_nonempty clean_entry_line(1) [OF e], of "length k + 1" is1 nl w at_end]
      e val clean_entry_line(3,4) [OF e]
    by (simp add: clean_entry_def)
  also have "\<dots> = load_loop [] at_end (store_entry (k @ '' '') w cf)"
    using nl by (auto simp: plain_line_def before_def intro: load_loop_skip)
  finally show ?thesis by (simp add: load_loop_end)
qed

text \<open>
  A value continued on the last line of a file: with a line end after it the value is
  the two lines; when the line end is missing, the last line is taken twice, because the
  \<open>getline\<close> that fails at the end leaves the line read before in \<open>nextline\<close>.
\<close>

theorem config_last_line:
  assumes "clean_entry cf (k, v)" and "v \<noteq> []" and "plain_line cf c"
  shows "map_of (myContents (snd (load_config (open_stream (entry_line cf (k, v) @ NL # c @ [NL])) cf))) k =
      Some (v @ NL # c) \<and>
    map_of (myContents (snd (load_config (open_stream (entry_line cf (k, v) @ NL # c)) cf))) k =
      Some (v @ NL # c @ NL # c)"
proof -
  have k: "trim k = k" "trim v = v" and line: "NL \<notin> set (entry_line cf (k, v))"
    using assms(1) by (simp_all add: clean_entry_def)
  have c: "trim c = c" "c \<noteq> []" "NL \<notin> set c" using assms(3) by (simp_all add: plain_line_def)
  note cont = plain_line_continues [OF assms(3)]
  let ?eof = "\<lparr>is_rest = [], is_eof = True, is_fail = False\<rparr>"
  have ended: "value_loop cf n w (open_stream []) = ([], w, at_end)" for n w
    using value_loop_step [of "open_stream []" n "[]" at_end cf w] by (simp add: getline_empty ends_value_def)
  have "value_loop cf [] (CHR '' '' # v) (open_stream (c @ [NL])) = ([], CHR '' '' # v @ NL # c, at_end)"
    using value_loop_step [of "open_stream (c @ [NL])" "[]" c "open_stream []" cf "CHR '' '' # v"]
      getline_line [OF c(3), of "[]" "[]"] cont ended by simp
  then have "load_config (open_stream (entry_line cf (k, v) @ NL # c @ [NL])) cf =
      (at_end, store_entry (k @ '' '') (CHR '' '' # v @ NL # c) cf)"
    using getline_line [OF line, of "[]" "c @ [NL]"] by (intro load_two_lines [OF assms(1)]) auto
  moreover have "value_loop cf [] (CHR '' '' # v) (open_stream c) = (c, CHR '' '' # v @ NL # c @ NL # c, at_end)"
    using value_loop_step [of "open_stream c" "[]" c ?eof cf "CHR '' '' # v"]
      value_loop_step [of ?eof c c at_end cf "CHR '' '' # v @ NL # c"]
      getline_last [OF c(3,2), of "[]"] cont by (simp add: getline_eof value_loop_failed)
  then have "load_config (open_stream (entry_line cf (k, v) @ NL # c)) cf =
      (at_end, store_entry (k @ '' '') (CHR '' '' # v @ NL # c @ NL # c) cf)"
    using getline_line [OF line, of "[]" c] assms(3) by (intro load_two_lines [OF assms(1)]) auto
  moreover have "trim (CHR '' '' # v @ NL # c) = v @ NL # c"
    "trim (CHR '' '' # v @ NL # c @ NL # c) = v @ NL # c @ NL # c"
    using trim_lines [OF k(2) assms(2) c(1,2), of "[NL]"] trim_lines [OF k(2) assms(2) c(1,2), of "NL # c @ [NL]"]
    by simp_all
  ultimately show ?thesis by (simp add: map_of_put trim_snoc k)
qed

theorem config_last_line_witness:
  "map_of (myContents (snd (load_config (open_stream (''name = a'' @ NL # ''b'')) empty_config))) ''name'' =
     Some (''a'' @ NL # ''b'' @ NL # ''b'')"
proof -
  have "clean_entry empty_config (''name'', ''a'')" "plain_line empty_config ''b''"
    "entry_line empty_config (''name'', ''a'') = ''name = a''" by code_simp+
  with config_last_line [of empty_config "''name''" "''a''" "''b''"] show ?thesis by simp
qed

subsection \<open>Values\<close>

lemma trim_int_text: "trim (int_text v) = int_text v"
proof (rule trim_id)
  have "int_text v \<noteq> []" using int_text_hd [of v] by auto
  then have "hd (int_text v) \<in> set (int_text v)" "last (int_text v) \<in> set (int_text v)" by simp_all
  then show "int_text v = [] \<or> \<not> is_space (hd (int_text v)) \<and> \<not> is_space (last (int_text v))"
    using int_text_no_space by blast
qed

text \<open>
  What \<open>add\<close> stores, \<open>read<int>\<close> returns, for every \<open>int\<close>; the values of the other
  keys stay, and removing a key that \<open>add\<close> made gives the configuration back.
\<close>

theorem config_add_read:
  assumes "config_ok cf" and "INT_MIN \<le> v" and "v \<le> INT_MAX" and "trim key = key"
  shows "read_default string_as_int key d (add_int key v cf) = Inr v \<and>
    (\<forall>k. k \<noteq> key \<longrightarrow> map_of (myContents (add_int key v cf)) k = map_of (myContents cf) k) \<and>
    (\<not> keyExists key cf \<longrightarrow> remove_key key (add_int key v cf) = Inr cf)"
proof -
  have ok: "map_ok (myContents cf)" using assms(1) by (simp add: config_ok_def)
  have "string_as_int (int_text v) = Inr v"
    using istream_int_text [OF assms(2,3)] by (simp add: string_as_int_def)
  moreover have "\<not> keyExists key cf \<Longrightarrow> map_erase key (map_put key (int_text v) (myContents cf)) = myContents cf"
    using smap.del_put [OF ok] by (simp add: keyExists_def)
  ultimately show ?thesis
    by (auto simp: add_int_def add_key_def read_default_def remove_key_def map_of_put assms(4) trim_int_text)
qed

theorem config_add_read_witness:
  "read_default string_as_int ''worker.thread.num'' 4 (add_int ''worker.thread.num'' (- 7) demo_config) = Inr (- 7)"
proof -
  have "config_ok demo_config" "trim ''worker.thread.num'' = ''worker.thread.num''" by code_simp+
  with config_add_read [of demo_config "- 7" "''worker.thread.num''" 4] show ?thesis
    by (simp add: INT_MIN_def INT_MAX_def)
qed

end
