(* ===== verification/Settings.thy ===== *)
theory Settings
  imports ConfigProps Utils
begin

section \<open>init_configure.cc, RRMode.cpp and global_settings.h: the settings and their reload\<close>

text \<open>
  The process keeps one \<open>ConfigFile\<close> and one \<open>CGlobalSettings\<close> (both singletons) and the
  pointer to the MySQL printer, of which only NULL or not matters here.  What the process
  finds outside is \<open>path_env\<close>: the working directory, when it can be read, and the text of
  every file that can be opened.  \<open>exit(n)\<close> is \<open>Inl n\<close>.
\<close>

record CGlobalSettings =
  remote_listen_port :: int
  thread_num :: u32
  client_heartbeat_timeout :: int

record path_env =
  cwd :: "string option"
  files :: "string \<Rightarrow> string option"

record process =
  config :: ConfigFile
  settings :: CGlobalSettings
  printer_set :: bool

type_synonym 'a or_exit = "int + 'a"

definition EXIT_FAILURE :: int where
  "EXIT_FAILURE = 1"

definition GetCurrentPath :: "path_env \<Rightarrow> string \<Rightarrow> bool \<times> string" where
  "GetCurrentPath env current_path =
     (case cwd env of Some p \<Rightarrow> (True, p) | None \<Rightarrow> (False, current_path))"

definition CONF_FILE :: string where
  "CONF_FILE = ''/conf/config.ini''"

definition LoadConfiguration :: "path_env \<Rightarrow> string \<Rightarrow> ConfigFile \<Rightarrow> bool \<times> ConfigFile" where
  "LoadConfiguration env config_file_path cf =
     (case files env (config_file_path @ CONF_FILE) of
        None \<Rightarrow> (False, cf)
      | Some t \<Rightarrow> (True, snd (load_config (open_stream t) cf)))"

definition InitConfigure :: "path_env \<Rightarrow> process \<Rightarrow> process or_exit" where
  "InitConfigure env p =
     (case GetCurrentPath env [] of
        (ok, current_path) \<Rightarrow>
          if \<not> ok then Inl EXIT_FAILURE
          else (case LoadConfiguration env current_path (config p) of
              (loaded, cf) \<Rightarrow> if \<not> loaded then Inl EXIT_FAILURE else Inr (p\<lparr>config := cf\<rparr>)))"

definition SettingsAndPrint :: "process \<Rightarrow> process outcome" where
  "SettingsAndPrint p =
     bindE (read_default string_as_int ''remote.listen.port'' 12006 (config p)) (\<lambda>port.
     bindE (read_default string_as_int ''worker.thread.num'' 4 (config p)) (\<lambda>num.
     bindE (read_default string_as_int ''client.heartbeat.timeout.s'' 70 (config p)) (\<lambda>timeout.
       Inr (p\<lparr>settings := \<lparr>remote_listen_port = port, thread_num = word_of_int num,
                            client_heartbeat_timeout = timeout\<rparr>\<rparr>))))"

definition SIGUSR1 :: int where
  "SIGUSR1 = 10"

definition SigUsr :: "path_env \<Rightarrow> int \<Rightarrow> process \<Rightarrow> process or_exit outcome" where
  "SigUsr env signo p =
     (if signo = SIGUSR1
      then (case InitConfigure env p of
          Inl n \<Rightarrow> Inr (Inl n)
        | Inr p1 \<Rightarrow> bindE (SettingsAndPrint p1) (\<lambda>p2. Inr (Inr p2)))
      else Inr (Inr p))"

subsection \<open>Entries with a number\<close>

lemma find_char_None: "find_str [c] s = None \<longleftrightarrow> c \<notin> set s"
  by (induction s) auto

lemma int_text_chars: "c \<in> set (int_text v) \<Longrightarrow> c = CHR ''-'' \<or> is_digit c"
  by (auto simp: int_text_def split: if_splits dest: nat_digits_all)

lemma int_text_excludes: "CHR ''#'' \<notin> set (int_text v)" "NL \<notin> set (int_text v)"
  using int_text_chars [of "CHR ''#''" v] int_text_chars [of NL v] by (auto simp: is_digit_def NL_def)

definition setting_entries :: "int \<Rightarrow> int \<Rightarrow> int \<Rightarrow> (string \<times> string) list" where
  "setting_entries port num timeout =
     [(''remote.listen.port'', int_text port), (''worker.thread.num'', int_text num),
      (''client.heartbeat.timeout.s'', int_text timeout)]"

definition standard_syntax :: "ConfigFile \<Rightarrow> bool" where
  "standard_syntax cf \<longleftrightarrow> myDelimiter cf = ''='' \<and> myComment cf = ''#'' \<and> mySentry cf = []"

lemma setting_entries_clean:
  assumes "standard_syntax cf"
  shows "list_all (clean_entry cf) (setting_entries port num timeout)"
proof -
  have "trim ''remote.listen.port'' = ''remote.listen.port''" "trim ''worker.thread.num'' = ''worker.thread.num''"
    "trim ''client.heartbeat.timeout.s'' = ''client.heartbeat.timeout.s''" by code_simp+
  then show ?thesis
    using assms int_text_excludes
    by (simp add: setting_entries_def clean_entry_def standard_syntax_def entry_line_def find_char_None
        is_sentry_def trim_int_text NL_def)
qed

definition is_int :: "int \<Rightarrow> bool" where
  "is_int v \<longleftrightarrow> INT_MIN \<le> v \<and> v \<le> INT_MAX"

lemma string_as_int_text: "is_int v \<Longrightarrow> string_as_int (int_text v) = Inr v"
  by (simp add: is_int_def string_as_int_def istream_int_text)

lemma SettingsAndPrint_values:
  assumes "map_of (myContents (config p)) ''remote.listen.port'' = Some (int_text port)"
    and "map_of (myContents (config p)) ''worker.thread.num'' = Some (int_text num)"
    and "map_of (myContents (config p)) ''client.heartbeat.timeout.s'' = Some (int_text timeout)"
    and "is_int port" and "is_int num" and "is_int timeout"
  shows "SettingsAndPrint p = Inr (p\<lparr>settings :=
      \<lparr>remote_listen_port = port, thread_num = word_of_int num, client_heartbeat_timeout = timeout\<rparr>\<rparr>)"
  using assms by (simp add: SettingsAndPrint_def read_default_def string_as_int_text)

lemma setting_entries_map:
  "map_of (rev (setting_entries port num timeout)) ''remote.listen.port'' = Some (int_text port)"
  "map_of (rev (setting_entries port num timeout)) ''worker.thread.num'' = Some (int_text num)"
  "map_of (rev (setting_entries port num timeout)) ''client.heartbeat.timeout.s'' = Some (int_text timeout)"
  by (simp_all add: setting_entries_def)

lemma settings_from_file:
  assumes "map_ok (myContents (config p))" and "standard_syntax (config p)" and "cwd env = Some dir"
    and "files env (dir @ CONF_FILE) =
      Some (concat (map (\<lambda>e. entry_line (config p) e @ [NL]) (setting_entries port num timeout)))"
    and "is_int port" and "is_int num" and "is_int timeout"
  shows "\<exists>cf. InitConfigure env p = Inr (p\<lparr>config := cf\<rparr>) \<and> SettingsAndPrint (p\<lparr>config := cf\<rparr>) =
    Inr (p\<lparr>config := cf, settings :=
      \<lparr>remote_listen_port = port, thread_num = word_of_int num, client_heartbeat_timeout = timeout\<rparr>\<rparr>)"
proof -
  let ?es = "setting_entries port num timeout"
  let ?text = "concat (map (\<lambda>e. entry_line (config p) e @ [NL]) ?es)"
  have "myDelimiter (config p) \<noteq> []" using assms(2) by (simp add: standard_syntax_def)
  note load = load_written [OF setting_entries_clean [OF assms(2)] this]
  define cf where "cf = snd (load_config (open_stream ?text) (config p))"
  have "map_of (myContents cf) = map_of (myContents (config p)) ++ map_of (rev ?es)"
    using load smap.get_put_all [OF assms(1)] by (simp add: cf_def)
  then have "SettingsAndPrint (p\<lparr>config := cf\<rparr>) = Inr (p\<lparr>config := cf, settings :=
      \<lparr>remote_listen_port = port, thread_num = word_of_int num, client_heartbeat_timeout = timeout\<rparr>\<rparr>)"
    using assms(5-7) by (subst SettingsAndPrint_values) (simp_all add: setting_entries_map)
  moreover have "InitConfigure env p = Inr (p\<lparr>config := cf\<rparr>)"
    using assms(3,4) by (simp add: InitConfigure_def GetCurrentPath_def LoadConfiguration_def cf_def)
  ultimately show ?thesis by blast
qed

subsection \<open>Properties\<close>

text \<open>
  A reload by SIGUSR1 takes every setting from the file, the listen port and the
  number of worker threads as well as the timeout: when the file holds the three
  entries, the settings afterwards are exactly these numbers, whatever they were before.
\<close>

theorem SigUsr_reload:
  assumes "map_ok (myContents (config p))" and "standard_syntax (config p)" and "cwd env = Some dir"
    and "files env (dir @ CONF_FILE) =
      Some (concat (map (\<lambda>e. entry_line (config p) e @ [NL]) (setting_entries port num timeout)))"
    and "is_int port" and "is_int num" and "is_int timeout"
  shows "\<exists>p'. SigUsr env SIGUSR1 p = Inr (Inr p') \<and>
    settings p' = \<lparr>remote_listen_port = port, thread_num = word_of_int num, client_heartbeat_timeout = timeout\<rparr>"
  using settings_from_file [OF assms] by (auto simp: SigUsr_def)

definition demo_process :: process where
  "demo_process = \<lparr>config = empty_config,
     settings = \<lparr>remote_listen_port = 12006, thread_num = 4, client_heartbeat_timeout = 70\<rparr>, printer_set = True\<rparr>"

theorem SigUsr_reload_witness:
  "\<exists>env p'. SigUsr env SIGUSR1 demo_process = Inr (Inr p') \<and> thread_num (settings p') = 8"
proof -
  let ?env = "\<lparr>cwd = Some ''/srv'', files = \<lambda>f. Some (concat (map (\<lambda>e. entry_line (config demo_process) e @ [NL])
      (setting_entries 12006 8 70)))\<rparr>"
  have "map_ok (myContents (config demo_process))" "standard_syntax (config demo_process)" by code_simp+
  with SigUsr_reload [of demo_process ?env "''/srv''" 12006 8 70]
  have "\<exists>p'. SigUsr ?env SIGUSR1 demo_process = Inr (Inr p') \<and> thread_num (settings p') = 8"
    by (auto simp: is_int_def INT_MIN_def INT_MAX_def)
  then show ?thesis by blast
qed

text \<open>
  A reload that finds no entries, or a start with an empty file, leaves the
  configuration as it is; a start then uses the port 12006, four workers and 70 seconds.
  Without a working directory or without the file the process exits with status 1.
\<close>

theorem settings_defaults:
  "config p = empty_config \<Longrightarrow> cwd env = Some dir \<Longrightarrow> files env (dir @ CONF_FILE) = Some [] \<Longrightarrow>
     InitConfigure env p = Inr p \<and>
     SettingsAndPrint p = Inr (p\<lparr>settings := \<lparr>remote_listen_port = 12006, thread_num = 4, client_heartbeat_timeout = 70\<rparr>\<rparr>) \<and>
     InitConfigure (env\<lparr>cwd := None\<rparr>) p = Inl EXIT_FAILURE \<and>
     InitConfigure (env\<lparr>files := \<lambda>_. None\<rparr>) p = Inl EXIT_FAILURE"
  using load_loop_nothing [of empty_config]
  by (simp add: InitConfigure_def GetCurrentPath_def LoadConfiguration_def SettingsAndPrint_def read_default_def
      load_config_def empty_config_def)

theorem settings_defaults_witness:
  "SettingsAndPrint demo_process = Inr demo_process"
  using settings_defaults [of demo_process "\<lparr>cwd = Some ''/srv'', files = \<lambda>f. Some []\<rparr>" "''/srv''"]
  by (simp add: demo_process_def)

end
