(* ===== verification/Workers.thy ===== *)
theory Workers
  imports ThreadSafeList Connection Settings
begin

section \<open>worker_threads.cc: the worker pool and the hand-over of connections\<close>

text \<open>
  \<open>CWorkerThread\<close> holds the workers' \<open>LIBEVENT_THREAD\<close> records and the index of the worker
  that got the last connection.  The notify pipe of a worker is the number of bytes in it,
  \<open>pipe_len\<close>, kept in the record of its reader.  What the system calls of the start-up
  return is \<open>start_env\<close>; \<open>wrote\<close> says whether the one-byte \<open>write\<close> to the pipe succeeded.
  The start-up handshake of the threads (\<open>RegisterThreadInitialized\<close> against
  \<open>WaitForThreadRegistration\<close>) is a step relation of its own.
\<close>

record CONN_INFO =
  ci_sfd :: int

record LIBEVENT_THREAD =
  notify_receive_fd :: int
  notify_send_fd :: int
  notify_added :: bool
  list_conn :: "CONN_INFO CThreadSafeList"
  pipe_len :: nat

record CWorkerThread =
  vec_libevent_thread :: "LIBEVENT_THREAD list"
  last_thread :: int

record start_env =
  pipe_of :: "nat \<Rightarrow> (int \<times> int) option"
  add_ok :: "nat \<Rightarrow> bool"
  create_ok :: "nat \<Rightarrow> bool"

definition new_workers :: CWorkerThread where
  "new_workers = \<lparr>vec_libevent_thread = [], last_thread = - 1\<rparr>"

subsection \<open>Start\<close>

definition new_thread :: "int \<times> int \<Rightarrow> LIBEVENT_THREAD" where
  "new_thread fds = \<lparr>notify_receive_fd = fst fds, notify_send_fd = snd fds, notify_added = False,
     list_conn = empty_list, pipe_len = 0\<rparr>"

definition SetupThread :: "bool \<Rightarrow> LIBEVENT_THREAD \<Rightarrow> bool \<times> LIBEVENT_THREAD" where
  "SetupThread added me = (if added then (True, me\<lparr>notify_added := True\<rparr>) else (False, me))"

fun setup_threads :: "start_env \<Rightarrow> nat list \<Rightarrow> LIBEVENT_THREAD list \<Rightarrow> bool \<times> LIBEVENT_THREAD list" where
  "setup_threads env [] vec = (True, vec)"
| "setup_threads env (i # is) vec =
     (case pipe_of env i of
        None \<Rightarrow> (False, vec)
      | Some fds \<Rightarrow>
          (case SetupThread (add_ok env i) (new_thread fds) of
             (ok, t) \<Rightarrow> if \<not> ok then (False, vec) else setup_threads env is (vec @ [t])))"

text \<open>\<open>CreateWorker\<close> ends the process when the thread cannot be created.\<close>

definition CreateWorker :: "bool \<Rightarrow> unit or_exit" where
  "CreateWorker created = (if created then Inr () else Inl 1)"

fun create_workers :: "start_env \<Rightarrow> nat list \<Rightarrow> LIBEVENT_THREAD list \<Rightarrow> unit or_exit outcome" where
  "create_workers env [] vec = Inr (Inr ())"
| "create_workers env (i # is) vec =
     (if length vec \<le> i then Inl OutOfRange
      else (case CreateWorker (create_ok env i) of
          Inl n \<Rightarrow> Inr (Inl n)
        | Inr _ \<Rightarrow> create_workers env is vec))"

text \<open>
  The outcome of \<open>InitThreads\<close>: it returned false, ended the process, or reached the wait
  for the registration of the threads, after which it returns true.
\<close>

datatype init_result = InitFalse | InitExit int | InitWaits

definition InitThreads ::
  "start_env \<Rightarrow> u32 \<Rightarrow> freelist \<Rightarrow> CWorkerThread \<Rightarrow> (init_result \<times> freelist \<times> CWorkerThread) outcome" where
  "InitThreads env n fl w =
     (let fl1 = InitFreeConns fl
      in case setup_threads env [0..<unat n] (vec_libevent_thread w) of
           (ok, vec) \<Rightarrow>
             let w1 = w\<lparr>vec_libevent_thread := vec\<rparr>
             in if \<not> ok then Inr (InitFalse, fl1, w1)
                else bindE (create_workers env [0..<unat n] vec) (\<lambda>r.
                       Inr (case r of Inl e \<Rightarrow> (InitExit e, fl1, w1) | Inr _ \<Rightarrow> (InitWaits, fl1, w1))))"

subsection \<open>The hand-over\<close>

definition DispatchSfdToWorker :: "u32 \<Rightarrow> bool \<Rightarrow> int \<Rightarrow> CWorkerThread \<Rightarrow> CWorkerThread outcome" where
  "DispatchSfdToWorker n wrote fd w =
     (if last_thread w = INT_MAX then Inl SignedOverflow
      else if n = 0 then Inl DivideByZero
      else let tid = sint ((word_of_int (last_thread w + 1) :: u32) mod n)
           in if tid < 0 \<or> length (vec_libevent_thread w) \<le> nat tid then Inl OutOfRange
              else let t = vec_libevent_thread w ! nat tid;
                       t1 = t\<lparr>list_conn := push_back \<lparr>ci_sfd = fd\<rparr> (list_conn t)\<rparr>;
                       t2 = (if wrote then t1\<lparr>pipe_len := pipe_len t1 + 1\<rparr> else t1)
                   in Inr (w\<lparr>vec_libevent_thread := (vec_libevent_thread w)[nat tid := t2], last_thread := tid\<rparr>))"

text \<open>The first part of \<open>ReadPipeCb\<close>: one byte from the pipe, one entry from the queue.\<close>

definition read_notify :: "nat \<Rightarrow> CWorkerThread \<Rightarrow> CONN_INFO option \<times> CWorkerThread" where
  "read_notify tid w =
     (let t = vec_libevent_thread w ! tid
      in if pipe_len t = 0 then (None, w)
         else let t1 = t\<lparr>pipe_len := pipe_len t - 1\<rparr>
              in case pop_front \<lparr>ci_sfd = 0\<rparr> (list_conn t1) of
                   (ok, connInfo, l) \<Rightarrow>
                     let w1 = w\<lparr>vec_libevent_thread := (vec_libevent_thread w)[tid := t1\<lparr>list_conn := l\<rparr>]\<rparr>
                     in if \<not> ok then (None, w1) else (Some connInfo, w1))"

definition ReadPipeCb :: "alloc_env \<Rightarrow> nat \<Rightarrow> CWorkerThread \<times> conn_store \<Rightarrow> (CWorkerThread \<times> conn_store) outcome" where
  "ReadPipeCb env tid ws =
     (case ws of (w, st) \<Rightarrow>
       (case read_notify tid w of
          (None, w1) \<Rightarrow> Inr (w1, st)
        | (Some connInfo, w1) \<Rightarrow>
            if ci_sfd connInfo \<noteq> 0
            then bindE (InitNewConn env (ci_sfd connInfo) tid st) (\<lambda>(conn, st1).
                   case conn of None \<Rightarrow> Inl NullDereference | Some a \<Rightarrow> Inr (w1, st1))
            else Inr (w1, st)))"

subsection \<open>Round robin\<close>

lemma round_robin_index:
  assumes "0 \<le> l" and "l \<le> INT_MAX" and "unat n = k" and "0 < k" and "int k \<le> INT_MAX"
  shows "sint ((word_of_int l :: u32) mod n) = l mod int k"
proof -
  have n: "uint n = int k" using uint_nat [of n] unfolding assms(3) .
  have "uint (word_of_int l :: u32) = l"
    using assms(1,2) by (simp add: uint_word_of_int INT_MAX_def)
  then have u: "uint ((word_of_int l :: u32) mod n) = l mod int k"
    using n by (simp add: uint_mod)
  have "0 \<le> l mod int k" "l mod int k < int k" using assms(4) by simp_all
  then show ?thesis
    using assms(5) u by (simp add: sint_uint signed_take_bit_int_eq_self INT_MAX_def)
qed

text \<open>The events of the pool after its start: the master dispatches, a worker is notified.\<close>

datatype pool_event = Dispatch int bool | Notify nat alloc_env

fun dispatched :: "pool_event list \<Rightarrow> int list" where
  "dispatched [] = []"
| "dispatched (Dispatch fd wrote # evs) = fd # dispatched evs"
| "dispatched (Notify tid env # evs) = dispatched evs"

definition served_by :: "nat \<Rightarrow> CONN_INFO option \<Rightarrow> (nat \<times> int) list" where
  "served_by tid ci = (case ci of None \<Rightarrow> [] | Some c \<Rightarrow> [(tid, ci_sfd c)])"

text \<open>A run gives, besides the state, which worker took which socket from its queue, in order.\<close>

fun pool_events ::
  "u32 \<Rightarrow> pool_event list \<Rightarrow> CWorkerThread \<times> conn_store \<Rightarrow>
   ((nat \<times> int) list \<times> CWorkerThread \<times> conn_store) outcome" where
  "pool_events n [] (w, st) = Inr ([], w, st)"
| "pool_events n (Dispatch fd wrote # evs) (w, st) =
     bindE (DispatchSfdToWorker n wrote fd w) (\<lambda>w1. pool_events n evs (w1, st))"
| "pool_events n (Notify tid env # evs) (w, st) =
     (if length (vec_libevent_thread w) \<le> tid then Inl OutOfRange
      else bindE (ReadPipeCb env tid (w, st)) (\<lambda>ws.
             bindE (pool_events n evs ws) (\<lambda>(served, ws1).
               Inr (served_by tid (fst (read_notify tid w)) @ served, ws1))))"

definition served_of :: "nat \<Rightarrow> (nat \<times> int) list \<Rightarrow> int list" where
  "served_of i served = map snd (filter (\<lambda>p. fst p = i) served)"

definition queue_of :: "CWorkerThread \<Rightarrow> nat \<Rightarrow> int list" where
  "queue_of w i = map ci_sfd (ts_list (list_conn (vec_libevent_thread w ! i)))"

text \<open>
  What holds after the sockets \<open>ds\<close> were dispatched and \<open>served\<close> taken, with \<open>k\<close> workers:
  worker \<open>i\<close> took and holds, in order, the sockets whose number modulo \<open>k\<close> is \<open>i\<close>, and its
  pipe never holds more bytes than its queue has entries.
\<close>

definition pool_rel :: "nat \<Rightarrow> int list \<Rightarrow> (nat \<times> int) list \<Rightarrow> CWorkerThread \<Rightarrow> bool" where
  "pool_rel k ds served w \<longleftrightarrow>
     length (vec_libevent_thread w) = k \<and>
     last_thread w = (if ds = [] then - 1 else int ((length ds - 1) mod k)) \<and>
     (\<forall>i<k. served_of i served @ queue_of w i = nths ds {j. j mod k = i} \<and>
        pipe_len (vec_libevent_thread w ! i) \<le> length (queue_of w i))"

lemma next_index: "0 < k \<Longrightarrow> (if ds = [] then - 1 else int ((length ds - 1) mod k)) + 1 \<le> int k \<and>
    ((if ds = [] then - 1 else int ((length ds - 1) mod k)) + 1) mod int k = int (length ds mod k)"
proof (cases ds)
  case (Cons d es)
  assume k: "0 < k"
  have "int (length es mod k) + 1 \<le> int k" using k mod_less_divisor [of k "length es"] by linarith
  moreover have "(int (length es mod k) + 1) mod int k = int ((length es + 1) mod k)"
    by (simp add: zmod_int mod_simps add.commute)
  ultimately show ?thesis using Cons by simp
qed simp

lemma nths_snoc: "nths (ds @ [x]) A = nths ds A @ (if length ds \<in> A then [x] else [])"
  by (simp add: nths_append nths_singleton)

text \<open>The worker after a dispatch, and the pool after it.\<close>

definition queued :: "bool \<Rightarrow> int \<Rightarrow> LIBEVENT_THREAD \<Rightarrow> LIBEVENT_THREAD" where
  "queued wrote fd t =
     (let t1 = t\<lparr>list_conn := push_back \<lparr>ci_sfd = fd\<rparr> (list_conn t)\<rparr>
      in if wrote then t1\<lparr>pipe_len := pipe_len t1 + 1\<rparr> else t1)"

lemma queued_simps [simp]:
  "ts_list (list_conn (queued wrote fd t)) = ts_list (list_conn t) @ [\<lparr>ci_sfd = fd\<rparr>]"
  "pipe_len (queued wrote fd t) = pipe_len t + (if wrote then 1 else 0)"
  by (simp_all add: queued_def push_back_def Let_def)

lemma Dispatch_exact:
  assumes "pool_rel k ds served w" and "unat n = k" and "0 < k" and "int k \<le> INT_MAX"
  shows "DispatchSfdToWorker n wrote fd w = Inr (w\<lparr>vec_libevent_thread := (vec_libevent_thread w)[length ds mod k :=
    queued wrote fd (vec_libevent_thread w ! (length ds mod k))], last_thread := int (length ds mod k)\<rparr>)"
proof -
  have len: "length (vec_libevent_thread w) = k"
    and last: "last_thread w = (if ds = [] then - 1 else int ((length ds - 1) mod k))"
    using assms(1) by (simp_all add: pool_rel_def)
  have lt: "last_thread w + 1 \<le> int k" "0 \<le> last_thread w + 1"
    and tid: "(last_thread w + 1) mod int k = int (length ds mod k)"
    using next_index [OF assms(3), of ds] last by auto
  then have idx: "sint ((word_of_int (last_thread w + 1) :: u32) mod n) = int (length ds mod k)"
    using round_robin_index [of "last_thread w + 1" n k] assms(2-4) by simp
  have "length ds mod k < k" "n \<noteq> 0" "last_thread w \<noteq> INT_MAX" using assms lt by auto
  with idx len show ?thesis by (simp add: DispatchSfdToWorker_def Let_def queued_def)
qed

lemma Dispatch_result:
  assumes "pool_rel k ds served w" and "unat n = k" and "0 < k" and "int k \<le> INT_MAX"
  shows "\<exists>w'. DispatchSfdToWorker n wrote fd w = Inr w' \<and> pool_rel k (ds @ [fd]) served w'"
proof -
  let ?i = "length ds mod k"
  let ?w = "w\<lparr>vec_libevent_thread := (vec_libevent_thread w)[?i := queued wrote fd (vec_libevent_thread w ! ?i)],
      last_thread := int ?i\<rparr>"
  have len: "length (vec_libevent_thread w) = k" using assms(1) by (simp add: pool_rel_def)
  have "served_of j served @ queue_of ?w j = nths (ds @ [fd]) {m. m mod k = j} \<and>
      pipe_len (vec_libevent_thread ?w ! j) \<le> length (queue_of ?w j)" if j: "j < k" for j
  proof -
    have old: "served_of j served @ queue_of w j = nths ds {m. m mod k = j}"
      "pipe_len (vec_libevent_thread w ! j) \<le> length (queue_of w j)"
      using assms(1) j by (simp_all add: pool_rel_def)
    show ?thesis
      using old j len assms(3) by (cases "j = ?i") (auto simp: queue_of_def nths_snoc simp flip: append_assoc)
  qed
  then have "pool_rel k (ds @ [fd]) served ?w" using len by (simp add: pool_rel_def)
  with Dispatch_exact [OF assms] show ?thesis by blast
qed

lemma read_notify_result:
  assumes "pool_rel k ds served w" and "tid < k"
  shows "case read_notify tid w of (ci, w') \<Rightarrow> pool_rel k ds (served @ served_by tid ci) w' \<and>
    (ci = None \<longleftrightarrow> pipe_len (vec_libevent_thread w ! tid) = 0)"
proof -
  let ?t = "vec_libevent_thread w ! tid"
  have len: "length (vec_libevent_thread w) = k" and le: "pipe_len ?t \<le> length (queue_of w tid)"
    using assms by (simp_all add: pool_rel_def)
  show ?thesis
  proof (cases "pipe_len ?t = 0")
    case True
    then show ?thesis using assms by (simp add: read_notify_def served_by_def)
  next
    case False
    with le obtain c cs where q: "ts_list (list_conn ?t) = c # cs"
      by (cases "ts_list (list_conn ?t)") (auto simp: queue_of_def)
    let ?w = "w\<lparr>vec_libevent_thread := (vec_libevent_thread w)[tid :=
        ?t\<lparr>pipe_len := pipe_len ?t - 1, list_conn := (list_conn ?t)\<lparr>ts_list := cs\<rparr>\<rparr>]\<rparr>"
    have run: "read_notify tid w = (Some c, ?w)"
      using False q by (simp add: read_notify_def pop_front_def Let_def)
    have "served_of j (served @ served_by tid (Some c)) @ queue_of ?w j = nths ds {m. m mod k = j} \<and>
        pipe_len (vec_libevent_thread ?w ! j) \<le> length (queue_of ?w j)" if j: "j < k" for j
    proof -
      have old: "served_of j served @ queue_of w j = nths ds {m. m mod k = j}"
        "pipe_len (vec_libevent_thread w ! j) \<le> length (queue_of w j)"
        using assms(1) j by (simp_all add: pool_rel_def)
      show ?thesis
        using old q len j False by (cases "j = tid") (auto simp: queue_of_def served_by_def served_of_def)
    qed
    then have "pool_rel k ds (served @ served_by tid (Some c)) ?w"
      using assms(1) len by (simp add: pool_rel_def)
    with run False show ?thesis by simp
  qed
qed

lemma ReadPipeCb_workers: "ReadPipeCb env tid (w, st) = Inr (w', st') \<Longrightarrow> w' = snd (read_notify tid w)"
  by (auto simp: ReadPipeCb_def split: prod.splits option.splits if_splits)

lemma pool_events_rel:
  assumes "unat n = k" and "0 < k" and "int k \<le> INT_MAX"
  shows "pool_rel k ds served w \<Longrightarrow> pool_events n evs (w, st) = Inr (out, w', st') \<Longrightarrow>
    pool_rel k (ds @ dispatched evs) (served @ out) w'"
proof (induction evs arbitrary: ds served w st out)
  case Nil
  then show ?case by simp
next
  case (Cons ev evs)
  show ?case
  proof (cases ev)
    case (Dispatch fd wrote)
    from Dispatch_result [OF Cons.prems(1) assms] obtain w1 where
      "DispatchSfdToWorker n wrote fd w = Inr w1" "pool_rel k (ds @ [fd]) served w1" by blast
    with Cons.IH [of "ds @ [fd]" served w1 st out] Cons.prems(2) Dispatch show ?thesis by simp
  next
    case (Notify tid env)
    with Cons.prems obtain w1 st1 out1 where *: "tid < k" "ReadPipeCb env tid (w, st) = Inr (w1, st1)"
      "pool_events n evs (w1, st1) = Inr (out1, w', st')" "out = served_by tid (fst (read_notify tid w)) @ out1"
      by (auto simp: pool_rel_def not_le split: if_splits)
    from read_notify_result [OF Cons.prems(1) *(1)] ReadPipeCb_workers [OF *(2)]
    have "pool_rel k ds (served @ served_by tid (fst (read_notify tid w))) w1"
      by (auto split: prod.splits)
    from Cons.IH [OF this *(3)] *(4) Notify show ?thesis by simp
  qed
qed

text \<open>The pool right after a successful start.\<close>

definition fresh_pool :: "nat \<Rightarrow> CWorkerThread \<Rightarrow> bool" where
  "fresh_pool k w \<longleftrightarrow> last_thread w = - 1 \<and> length (vec_libevent_thread w) = k \<and>
     (\<forall>t\<in>set (vec_libevent_thread w). list_conn t = empty_list \<and> pipe_len t = 0)"

lemma fresh_pool_rel: "fresh_pool k w \<Longrightarrow> pool_rel k [] [] w"
  by (auto simp: fresh_pool_def pool_rel_def queue_of_def served_of_def empty_list_def)

text \<open>
  C18. Round robin, first in first out, nothing lost.  From a fresh pool of \<open>k\<close> workers,
  whatever way dispatches and notifications interleave, the sockets that worker \<open>i\<close> took
  from its queue followed by those still in it are, in order, the dispatched sockets
  whose number is \<open>i\<close> modulo \<open>k\<close>; and a worker never finds its queue shorter than the
  bytes in its pipe.
\<close>

theorem pool_round_robin:
  assumes "fresh_pool k w" and "unat n = k" and "0 < k" and "int k \<le> INT_MAX"
    and "pool_events n evs (w, st) = Inr (served, w', st')" and "i < k"
  shows "served_of i served @ queue_of w' i = nths (dispatched evs) {j. j mod k = i} \<and>
    pipe_len (vec_libevent_thread w' ! i) \<le> length (queue_of w' i)"
  using pool_events_rel [OF assms(2-4) fresh_pool_rel [OF assms(1)] assms(5)] assms(6)
  by (simp add: pool_rel_def)

definition two_workers :: CWorkerThread where
  "two_workers = \<lparr>vec_libevent_thread = [new_thread (3, 4), new_thread (5, 6)], last_thread = - 1\<rparr>"

lemma demo_pool_run:
  "\<exists>served w' st'. pool_events 2 [Dispatch 10 wrote, Dispatch 11 True, Dispatch 12 True, Notify 0 example_env]
     (two_workers, start_store static_freelist) = Inr (served, w', st')"
  by (simp add: two_workers_def new_thread_def DispatchSfdToWorker_def INT_MAX_def push_back_def
      ReadPipeCb_def read_notify_def pop_front_def Let_def empty_list_def InitNewConn_def obtain_conn_def
      fp.get_empty example_env_def split: prod.splits)

theorem pool_round_robin_witness:
  "\<exists>served w' st'. pool_events 2 [Dispatch 10 True, Dispatch 11 True, Dispatch 12 True, Notify 0 example_env]
      (two_workers, start_store static_freelist) = Inr (served, w', st') \<and>
    served_of 0 served @ queue_of w' 0 = [10, 12]"
proof -
  let ?evs = "[Dispatch 10 True, Dispatch 11 True, Dispatch 12 True, Notify 0 example_env]"
  obtain served w' st' where r: "pool_events 2 ?evs (two_workers, start_store static_freelist) = Inr (served, w', st')"
    using demo_pool_run by blast
  have "fresh_pool 2 two_workers" by (simp add: fresh_pool_def two_workers_def new_thread_def)
  from pool_round_robin [OF this _ _ _ r, of 0] have "served_of 0 served @ queue_of w' 0 = nths [10, 11, 12] {j. j mod 2 = 0}"
    by (simp add: INT_MAX_def)
  also have "\<dots> = [10, 12]" by (simp add: nths_Cons)
  finally show ?thesis using r by blast
qed

text \<open>Whether the byte for each dispatched socket went into the pipe.\<close>

fun notified :: "pool_event list \<Rightarrow> bool list" where
  "notified [] = []"
| "notified (Dispatch fd wrote # evs) = wrote # notified evs"
| "notified (Notify tid env # evs) = notified evs"

definition missed :: "nat \<Rightarrow> nat \<Rightarrow> bool list \<Rightarrow> nat" where
  "missed k i ws = length (filter Not (nths ws {j. j mod k = i}))"

definition backlog_rel :: "nat \<Rightarrow> bool list \<Rightarrow> CWorkerThread \<Rightarrow> bool" where
  "backlog_rel k ws w \<longleftrightarrow>
     (\<forall>i<k. length (queue_of w i) = pipe_len (vec_libevent_thread w ! i) + missed k i ws)"

lemma read_notify_backlog:
  assumes "pool_rel k ds served w" and "tid < k" and "backlog_rel k ws w"
  shows "backlog_rel k ws (snd (read_notify tid w))"
proof -
  let ?t = "vec_libevent_thread w ! tid"
  have len: "length (vec_libevent_thread w) = k" and le: "pipe_len ?t \<le> length (queue_of w tid)"
    using assms by (simp_all add: pool_rel_def)
  show ?thesis
  proof (cases "pipe_len ?t = 0")
    case True
    then show ?thesis using assms(3) by (simp add: read_notify_def)
  next
    case False
    with le obtain c cs where q: "ts_list (list_conn ?t) = c # cs"
      by (cases "ts_list (list_conn ?t)") (auto simp: queue_of_def)
    with False have run: "snd (read_notify tid w) = w\<lparr>vec_libevent_thread := (vec_libevent_thread w)[tid :=
        ?t\<lparr>pipe_len := pipe_len ?t - 1, list_conn := (list_conn ?t)\<lparr>ts_list := cs\<rparr>\<rparr>]\<rparr>"
      by (simp add: read_notify_def pop_front_def Let_def)
    have "length (queue_of (snd (read_notify tid w)) j) =
        pipe_len (vec_libevent_thread (snd (read_notify tid w)) ! j) + missed k j ws" if "j < k" for j
      using assms(3) that q False len unfolding backlog_rel_def run
      by (cases "j = tid") (auto simp: queue_of_def)
    then show ?thesis by (simp add: backlog_rel_def)
  qed
qed

lemma pool_events_backlog:
  assumes "unat n = k" and "0 < k" and "int k \<le> INT_MAX"
  shows "pool_rel k ds served w \<Longrightarrow> length ws = length ds \<Longrightarrow> backlog_rel k ws w \<Longrightarrow>
    pool_events n evs (w, st) = Inr (out, w', st') \<Longrightarrow> backlog_rel k (ws @ notified evs) w'"
proof (induction evs arbitrary: ds served w st out ws)
  case Nil
  then show ?case by simp
next
  case (Cons ev evs)
  show ?case
  proof (cases ev)
    case (Dispatch fd wrote)
    let ?i = "length ds mod k"
    let ?w = "w\<lparr>vec_libevent_thread := (vec_libevent_thread w)[?i := queued wrote fd (vec_libevent_thread w ! ?i)],
        last_thread := int ?i\<rparr>"
    note run = Dispatch_exact [OF Cons.prems(1) assms, of wrote fd]
    have rel: "pool_rel k (ds @ [fd]) served ?w"
      using Dispatch_result [OF Cons.prems(1) assms, of wrote fd] unfolding run by blast
    have len: "length (vec_libevent_thread w) = k" using Cons.prems(1) by (simp add: pool_rel_def)
    have "length (queue_of ?w j) = pipe_len (vec_libevent_thread ?w ! j) + missed k j (ws @ [wrote])" if "j < k" for j
      using Cons.prems(2,3) that len unfolding backlog_rel_def
      by (cases "j = ?i") (auto simp: queue_of_def missed_def nths_snoc)
    then have "backlog_rel k (ws @ [wrote]) ?w" by (simp add: backlog_rel_def)
    with Cons.IH [OF rel _ this] Cons.prems(2,4) Dispatch run show ?thesis by simp
  next
    case (Notify tid env)
    with Cons.prems obtain w1 st1 out1 where *: "tid < k" "ReadPipeCb env tid (w, st) = Inr (w1, st1)"
      "pool_events n evs (w1, st1) = Inr (out1, w', st')"
      by (auto simp: pool_rel_def not_le split: if_splits)
    from read_notify_result [OF Cons.prems(1) *(1)] ReadPipeCb_workers [OF *(2)]
    have "pool_rel k ds (served @ served_by tid (fst (read_notify tid w))) w1"
      by (auto split: prod.splits)
    moreover have "backlog_rel k ws w1"
      using read_notify_backlog [OF Cons.prems(1) *(1) Cons.prems(3)] ReadPipeCb_workers [OF *(2)] by simp
    ultimately show ?thesis using Cons.IH [OF _ Cons.prems(2) _ *(3)] Notify by simp
  qed
qed

text \<open>
  C27. A lost notification is never made up for.  When the byte for a socket could not be
  written to the pipe, the socket stays in the queue, and the next notification takes it in
  place of its own socket: whatever happens later, the queue of a worker is longer than its
  pipe by the number of failed writes so far.  So when a worker has read all its bytes, that
  many connections, the last ones it was given, still wait.
\<close>

theorem missed_notifications:
  assumes "fresh_pool k w" and "unat n = k" and "0 < k" and "int k \<le> INT_MAX"
    and "pool_events n evs (w, st) = Inr (served, w', st')" and "i < k"
  shows "length (queue_of w' i) = pipe_len (vec_libevent_thread w' ! i) + missed k i (notified evs)"
proof -
  have "backlog_rel k [] w"
    using assms(1) by (auto simp: backlog_rel_def missed_def fresh_pool_def queue_of_def empty_list_def)
  from pool_events_backlog [OF assms(2-4) fresh_pool_rel [OF assms(1)] _ this assms(5)] assms(6)
  show ?thesis by (simp add: backlog_rel_def)
qed

theorem missed_notifications_witness:
  "\<exists>served w' st'. pool_events 2 [Dispatch 10 False, Dispatch 11 True, Dispatch 12 True, Notify 0 example_env]
      (two_workers, start_store static_freelist) = Inr (served, w', st') \<and>
    length (queue_of w' 0) = pipe_len (vec_libevent_thread w' ! 0) + 1"
proof -
  let ?evs = "[Dispatch 10 False, Dispatch 11 True, Dispatch 12 True, Notify 0 example_env]"
  obtain served w' st' where r: "pool_events 2 ?evs (two_workers, start_store static_freelist) = Inr (served, w', st')"
    using demo_pool_run by blast
  have "fresh_pool 2 two_workers" by (simp add: fresh_pool_def two_workers_def new_thread_def)
  from missed_notifications [OF this _ _ _ r, of 0] have
    "length (queue_of w' 0) = pipe_len (vec_libevent_thread w' ! 0) + missed 2 0 [False, True, True]"
    by (simp add: INT_MAX_def)
  moreover have "missed 2 0 [False, True, True] = 1" by (simp add: missed_def nths_Cons)
  ultimately have "length (queue_of w' 0) = pipe_len (vec_libevent_thread w' ! 0) + 1" by simp
  with r show ?thesis by blast
qed

text \<open>Several connections one after the other, by the number of workers now in the settings.\<close>

fun dispatch_all :: "u32 \<Rightarrow> (int \<times> bool) list \<Rightarrow> CWorkerThread \<Rightarrow> CWorkerThread outcome" where
  "dispatch_all n [] w = Inr w"
| "dispatch_all n ((fd, wrote) # xs) w = bindE (DispatchSfdToWorker n wrote fd w) (dispatch_all n xs)"

lemma Dispatch_beyond:
  assumes "length (vec_libevent_thread w) = k" and "- 1 \<le> last_thread w" and "last_thread w < int k"
    and "k < unat n" and "int (unat n) \<le> INT_MAX"
  shows "if last_thread w + 1 = int k then DispatchSfdToWorker n wrote fd w = Inl OutOfRange
    else \<exists>w'. DispatchSfdToWorker n wrote fd w = Inr w' \<and> length (vec_libevent_thread w') = k \<and>
      last_thread w' = last_thread w + 1"
proof -
  have "(last_thread w + 1) mod int (unat n) = last_thread w + 1"
    using assms(2-4) by (intro mod_pos_pos_trivial) linarith+
  then have idx: "sint ((word_of_int (last_thread w + 1) :: u32) mod n) = last_thread w + 1"
    using round_robin_index [of "last_thread w + 1" n "unat n"] assms by simp
  moreover have "n \<noteq> 0" using assms(4) by auto
  moreover have "last_thread w \<noteq> INT_MAX" using assms(3-5) by linarith
  ultimately show ?thesis
    using assms(1-3) unfolding DispatchSfdToWorker_def Let_def idx by auto
qed

text \<open>
  C33. After a reload the dispatcher uses the new number of workers on the old pool: with
  zero it divides by zero, and with a number above the size of the pool one of the next
  connections, at the latest the one after the pool is gone through, makes \<open>vector::at\<close>
  raise \<open>out_of_range\<close>, which nothing catches.
\<close>

theorem reload_breaks_dispatch:
  assumes "length (vec_libevent_thread w) = k" and "- 1 \<le> last_thread w" and "last_thread w < int k"
    and "n = 0 \<or> k < unat n" and "int (unat n) \<le> INT_MAX" and "int k \<le> INT_MAX" and "k < length xs"
  shows "dispatch_all n xs w = Inl (if n = 0 then DivideByZero else OutOfRange)"
proof (cases "n = 0")
  case True
  obtain fd wrote ys where "xs = (fd, wrote) # ys" using assms(7) by (cases xs) auto
  then show ?thesis using True assms(3,6) by (simp add: DispatchSfdToWorker_def)
next
  case False
  with assms(4) have n: "k < unat n" by simp
  have "int k \<le> last_thread w + int (length xs)" using assms(2,7) by linarith
  then have "dispatch_all n xs w = Inl OutOfRange"
    using assms(1-3)
  proof (induction xs arbitrary: w)
    case Nil
    then show ?case by simp
  next
    case (Cons x xs)
    obtain fd wrote where x: "x = (fd, wrote)" by fastforce
    from Dispatch_beyond [OF Cons.prems(2-4) n assms(5), of wrote fd] Cons x show ?case
      by (auto split: if_splits)
  qed
  with False show ?thesis by simp
qed

theorem reload_breaks_dispatch_witness:
  "dispatch_all 8 [(10, True), (11, True), (12, True)] two_workers = Inl OutOfRange"
  using reload_breaks_dispatch [of two_workers 2 8 "[(10, True), (11, True), (12, True)]"]
  by (simp add: two_workers_def INT_MAX_def)

subsection \<open>The start succeeds\<close>

lemma setup_threads_result:
  "setup_threads env is vec = (ok, vec') \<Longrightarrow>
     (ok \<longleftrightarrow> (\<forall>i\<in>set is. pipe_of env i \<noteq> None \<and> add_ok env i)) \<and>
     (ok \<longrightarrow> vec' = vec @ map (\<lambda>i. (new_thread (the (pipe_of env i)))\<lparr>notify_added := True\<rparr>) is)"
proof (induction "is" arbitrary: vec)
  case Nil
  then show ?case by auto
next
  case (Cons i ix)
  show ?case
  proof (cases "pipe_of env i = None \<or> \<not> add_ok env i")
    case True
    with Cons.prems show ?thesis by (cases "pipe_of env i") (auto simp: SetupThread_def)
  next
    case False
    then obtain fds where fds: "pipe_of env i = Some fds" "add_ok env i" by auto
    from Cons.prems have "setup_threads env ix (vec @ [(new_thread fds)\<lparr>notify_added := True\<rparr>]) = (ok, vec')"
      by (simp add: fds SetupThread_def)
    from Cons.IH [OF this] fds show ?thesis by simp
  qed
qed

lemma create_workers_result:
  "\<forall>i\<in>set is. i < length vec \<Longrightarrow>
     create_workers env is vec = Inr (if \<forall>i\<in>set is. create_ok env i then Inr () else Inl 1)"
  by (induction "is") (auto simp: CreateWorker_def)

text \<open>
  \<open>InitThreads\<close> on a new object never raises.  It reaches the wait exactly when every
  pipe, event and thread could be made; then there is one worker for each of the \<open>n\<close>
  threads of the settings, each with its own pipe, an empty queue and its event added.
\<close>

lemma InitThreads_cases:
  "\<exists>r w. InitThreads env n fl new_workers = Inr (r, InitFreeConns fl, w) \<and> r \<in> {InitFalse, InitExit 1, InitWaits} \<and>
     (r = InitWaits \<longleftrightarrow> (\<forall>i<unat n. pipe_of env i \<noteq> None \<and> add_ok env i \<and> create_ok env i)) \<and>
     (r = InitWaits \<longrightarrow> fresh_pool (unat n) w \<and>
       (\<forall>i<unat n. let t = vec_libevent_thread w ! i
          in notify_added t \<and> Some (notify_receive_fd t, notify_send_fd t) = pipe_of env i))"
proof -
  let ?ix = "[0..<unat n]"
  obtain ok vec where s: "setup_threads env ?ix [] = (ok, vec)" by fastforce
  note made = setup_threads_result [OF s]
  show ?thesis
  proof (cases ok)
    case False
    with made have "\<exists>i<unat n. \<not> (pipe_of env i \<noteq> None \<and> add_ok env i)" by auto
    with False s show ?thesis by (auto simp: InitThreads_def new_workers_def Let_def)
  next
    case True
    with made have vec: "vec = map (\<lambda>i. (new_thread (the (pipe_of env i)))\<lparr>notify_added := True\<rparr>) ?ix"
      and all: "\<forall>i<unat n. pipe_of env i \<noteq> None \<and> add_ok env i" by auto
    have "create_workers env ?ix vec = Inr (if \<forall>i\<in>set ?ix. create_ok env i then Inr () else Inl 1)"
      by (rule create_workers_result) (simp add: vec)
    moreover have "fresh_pool (unat n) \<lparr>vec_libevent_thread = vec, last_thread = - 1\<rparr>"
      by (auto simp: fresh_pool_def vec new_thread_def)
    moreover have "notify_added (vec ! i) \<and> Some (notify_receive_fd (vec ! i), notify_send_fd (vec ! i)) = pipe_of env i"
      if "i < unat n" for i
      using all that by (auto simp: vec new_thread_def)
    ultimately show ?thesis
      using True s all by (auto simp: InitThreads_def new_workers_def Let_def)
  qed
qed

definition good_start :: start_env where
  "good_start = \<lparr>pipe_of = \<lambda>i. Some (3 + 2 * int i, 4 + 2 * int i), add_ok = \<lambda>_. True, create_ok = \<lambda>_. True\<rparr>"

end
