(* ===== verification/Handshake.thy ===== *)
theory Handshake
  imports Settings
begin

section \<open>worker_threads.cc: the start-up handshake\<close>

text \<open>
  \<open>InitThreads\<close> creates the worker threads one after the other and then waits on a
  condition variable; every worker counts itself under the same mutex and the one that
  completes the count signals.  The three blocks of code are atomic steps: a thread is
  created, a worker registers (its block holds the mutex), the main thread takes the
  mutex and enters \<open>pthread_cond_wait\<close>, which releases it.  A signal wakes a thread that
  waits and is lost otherwise; the code has no loop around the wait and no test of the
  count before it.  The parameter \<open>spurious\<close> of a step says whether
  \<open>pthread_cond_wait\<close> may wake up without a signal, as POSIX allows; \<open>handshake_reaches\<close> are the
  runs in which it does not.
\<close>

datatype main_phase = Creating | Waiting | Passed

record handshake =
  started :: nat
  registered :: nat
  init_count :: int
  main_phase :: main_phase

definition handshake_start :: handshake where
  "handshake_start = \<lparr>started = 0, registered = 0, init_count = 0, main_phase = Creating\<rparr>"

definition pthread_cond_signal :: "handshake \<Rightarrow> handshake" where
  "pthread_cond_signal h = (if main_phase h = Waiting then h\<lparr>main_phase := Passed\<rparr> else h)"

definition RegisterThreadInitialized :: "u32 \<Rightarrow> handshake \<Rightarrow> handshake" where
  "RegisterThreadInitialized n h =
     (let h1 = h\<lparr>registered := registered h + 1, init_count := int32 (init_count h + 1)\<rparr>
      in if init_count h1 = sint n then pthread_cond_signal h1 else h1)"

definition WaitForThreadRegistration :: "handshake \<Rightarrow> handshake" where
  "WaitForThreadRegistration h = h\<lparr>main_phase := Waiting\<rparr>"

inductive handshake_step :: "bool \<Rightarrow> u32 \<Rightarrow> handshake \<Rightarrow> handshake \<Rightarrow> bool" for spurious n where
  create: "main_phase h = Creating \<Longrightarrow> started h < unat n \<Longrightarrow> handshake_step spurious n h (h\<lparr>started := started h + 1\<rparr>)"
| wait: "main_phase h = Creating \<Longrightarrow> started h = unat n \<Longrightarrow> handshake_step spurious n h (WaitForThreadRegistration h)"
| register: "registered h < started h \<Longrightarrow> handshake_step spurious n h (RegisterThreadInitialized n h)"
| wake: "spurious \<Longrightarrow> main_phase h = Waiting \<Longrightarrow> handshake_step spurious n h (h\<lparr>main_phase := Passed\<rparr>)"

inductive_cases handshake_stepE: "handshake_step spurious n h h'"

abbreviation handshake_reaches :: "u32 \<Rightarrow> handshake \<Rightarrow> handshake \<Rightarrow> bool" where
  "handshake_reaches n \<equiv> (handshake_step False n)\<^sup>*\<^sup>*"

definition stuck :: "u32 \<Rightarrow> handshake \<Rightarrow> bool" where
  "stuck n h \<longleftrightarrow> (\<forall>h'. \<not> handshake_step False n h h')"

subsection \<open>Invariant\<close>

text \<open>The number of workers is positive and fits an \<open>int\<close>.\<close>

definition workers :: "u32 \<Rightarrow> nat \<Rightarrow> bool" where
  "workers n k \<longleftrightarrow> unat n = k \<and> sint n = int k \<and> 0 < k"

lemma workersI: "unat n = k \<Longrightarrow> 0 < k \<Longrightarrow> int k \<le> INT_MAX \<Longrightarrow> workers n k"
proof -
  assume n: "unat n = k" "0 < k" "int k \<le> INT_MAX"
  have "uint n = int k" using uint_nat [of n] unfolding n(1) .
  then have "sint n = int k"
    using n(3) by (simp add: sint_uint signed_take_bit_int_eq_self INT_MAX_def)
  with n show ?thesis by (simp add: workers_def)
qed

lemma workers_bound: "workers n k \<Longrightarrow> int k \<le> INT_MAX"
  using sint_lt [of n] by (simp add: workers_def INT_MAX_def)

definition handshake_inv :: "nat \<Rightarrow> handshake \<Rightarrow> bool" where
  "handshake_inv k h \<longleftrightarrow> registered h \<le> started h \<and> started h \<le> k \<and> init_count h = int (registered h) \<and>
     (main_phase h \<noteq> Creating \<longrightarrow> started h = k) \<and> (main_phase h = Passed \<longrightarrow> registered h = k)"

lemma handshake_inv_start: "handshake_inv k handshake_start"
  by (simp add: handshake_inv_def handshake_start_def)

lemma RegisterThreadInitialized_simp:
  assumes "workers n k" and "handshake_inv k h" and "registered h < started h"
  shows "RegisterThreadInitialized n h = h\<lparr>registered := registered h + 1, init_count := int (registered h + 1),
    main_phase := (if registered h + 1 = k \<and> main_phase h = Waiting then Passed else main_phase h)\<rparr>"
proof -
  have "int (registered h + 1) \<le> INT_MAX"
    using assms workers_bound [OF assms(1)] unfolding handshake_inv_def by linarith
  then have "int32 (init_count h + 1) = int (registered h + 1)"
    using assms(2) by (subst int32_id) (auto simp: handshake_inv_def INT_MIN_def)
  moreover have "int (registered h + 1) = sint n \<longleftrightarrow> registered h + 1 = k"
    using assms(1) unfolding workers_def by linarith
  ultimately show ?thesis
    unfolding RegisterThreadInitialized_def Let_def pthread_cond_signal_def by auto
qed

lemma handshake_step_cases:
  assumes "workers n k" and "handshake_inv k h" and "handshake_step False n h h'"
  shows "h' = h\<lparr>started := started h + 1\<rparr> \<and> main_phase h = Creating \<and> started h < k \<or>
    h' = h\<lparr>main_phase := Waiting\<rparr> \<and> main_phase h = Creating \<and> started h = k \<or>
    registered h < started h \<and> h' = h\<lparr>registered := registered h + 1, init_count := int (registered h + 1),
      main_phase := (if registered h + 1 = k \<and> main_phase h = Waiting then Passed else main_phase h)\<rparr>"
  using assms(3) RegisterThreadInitialized_simp [OF assms(1,2)] assms(1)
  by (auto elim!: handshake_stepE simp: WaitForThreadRegistration_def workers_def)

lemma handshake_inv_step:
  "workers n k \<Longrightarrow> handshake_inv k h \<Longrightarrow> handshake_step False n h h' \<Longrightarrow> handshake_inv k h'"
  using handshake_step_cases [of n k h h'] by (auto simp: handshake_inv_def split: if_splits)

interpretation hs: invariant_steps "handshake_step False n" "\<lambda>h. workers n (unat n) \<and> handshake_inv (unat n) h" for n
  by unfold_locales (auto intro: handshake_inv_step)

lemma handshake_inv_reaches:
  "handshake_reaches n h h' \<Longrightarrow> workers n k \<Longrightarrow> handshake_inv k h \<Longrightarrow> handshake_inv k h'"
  using hs.inv_reaches [of n h h'] by (auto simp: workers_def)

subsection \<open>Properties\<close>

lemma register_one:
  "RegisterThreadInitialized 1 \<lparr>started = 1, registered = 0, init_count = 0, main_phase = Waiting\<rparr> =
     \<lparr>started = 1, registered = 1, init_count = 1, main_phase = Passed\<rparr>"
  by (simp add: RegisterThreadInitialized_def pthread_cond_signal_def int32_def)

lemma one_worker_waits:
  "handshake_reaches 1 handshake_start \<lparr>started = 1, registered = 0, init_count = 0, main_phase = Waiting\<rparr>"
proof -
  have "handshake_step False 1 handshake_start (handshake_start\<lparr>started := 1\<rparr>)"
    using handshake_step.create [where h = handshake_start and n = 1 and spurious = False] by (simp add: handshake_start_def)
  moreover have "handshake_step False 1 (handshake_start\<lparr>started := 1\<rparr>) \<lparr>started = 1, registered = 0, init_count = 0, main_phase = Waiting\<rparr>"
    using handshake_step.wait [where h = "handshake_start\<lparr>started := 1\<rparr>" and n = 1 and spurious = False]
    by (simp add: handshake_start_def WaitForThreadRegistration_def)
  ultimately show ?thesis by simp
qed

lemma one_worker_passes:
  "handshake_reaches 1 \<lparr>started = 1, registered = 0, init_count = 0, main_phase = Waiting\<rparr>
     \<lparr>started = 1, registered = 1, init_count = 1, main_phase = Passed\<rparr>"
  using handshake_step.register [where h = "\<lparr>started = 1, registered = 0, init_count = 0, main_phase = Waiting\<rparr>" and n = 1 and spurious = False, unfolded register_one]
  by (intro r_into_rtranclp) simp

lemma spurious_start:
  "(handshake_step True n)\<^sup>*\<^sup>* handshake_start (handshake_start\<lparr>started := unat n, main_phase := Passed\<rparr>)"
proof -
  have "(handshake_step True n)\<^sup>*\<^sup>* handshake_start (handshake_start\<lparr>started := k\<rparr>)" if "k \<le> unat n" for k
    using that
  proof (induction k)
    case 0
    then show ?case by (simp add: handshake_start_def)
  next
    case (Suc k)
    have "handshake_step True n (handshake_start\<lparr>started := k\<rparr>) (handshake_start\<lparr>started := Suc k\<rparr>)"
      using handshake_step.create [where h = "handshake_start\<lparr>started := k\<rparr>" and n = n and spurious = True] Suc.prems by (simp add: handshake_start_def)
    with Suc show ?case by (auto intro: rtranclp.rtrancl_into_rtrancl)
  qed
  then have "(handshake_step True n)\<^sup>*\<^sup>* handshake_start (handshake_start\<lparr>started := unat n\<rparr>)" by simp
  also have "handshake_step True n (handshake_start\<lparr>started := unat n\<rparr>)
      (handshake_start\<lparr>started := unat n, main_phase := Waiting\<rparr>)"
    using handshake_step.wait [where h = "handshake_start\<lparr>started := unat n\<rparr>" and n = n and spurious = True]
    by (simp add: handshake_start_def WaitForThreadRegistration_def)
  also have "handshake_step True n (handshake_start\<lparr>started := unat n, main_phase := Waiting\<rparr>)
      (handshake_start\<lparr>started := unat n, main_phase := Passed\<rparr>)"
    using handshake_step.wake [where spurious = True and h = "handshake_start\<lparr>started := unat n, main_phase := Waiting\<rparr>" and n = n] by simp
  finally show ?thesis .
qed

text \<open>
  C29. \<open>InitThreads\<close> does not return too early as long as \<open>pthread_cond_wait\<close> wakes up for
  signals only: when the main thread has passed the wait, all workers have been created and
  have registered.  With a wake-up that has no signal, which POSIX allows, it can pass the
  wait when no worker has registered.
\<close>

theorem handshake_safe:
  assumes "workers n k"
  shows "(\<forall>h. handshake_reaches n handshake_start h \<longrightarrow> main_phase h = Passed \<longrightarrow>
      started h = k \<and> registered h = k \<and> init_count h = int k) \<and>
    (\<exists>h. (handshake_step True n)\<^sup>*\<^sup>* handshake_start h \<and> main_phase h = Passed \<and> registered h = 0)"
  using handshake_inv_reaches [OF _ assms handshake_inv_start] spurious_start [of n]
  by (auto simp: handshake_inv_def handshake_start_def)

theorem handshake_safe_witness:
  "\<exists>h. handshake_reaches 1 handshake_start h \<and> main_phase h = Passed \<and> registered h = 1"
  using handshake_safe [OF workersI [of 1 1]] rtranclp_trans [OF one_worker_waits one_worker_passes]
  by (auto simp: INT_MAX_def)

text \<open>
  When the main thread reaches the wait before the last worker registers, it gets
  past it: without wake-ups that have no signal, every state from which nothing more can happen has passed the wait.
\<close>

theorem handshake_wakes:
  assumes "workers n k" and "handshake_reaches n handshake_start h" and "main_phase h = Waiting"
    and "registered h < k" and "handshake_reaches n h h'" and "stuck n h'"
  shows "main_phase h' = Passed"
proof -
  have inv: "handshake_inv k h" by (rule handshake_inv_reaches [OF assms(2,1) handshake_inv_start])
  have n: "unat n = k" using assms(1) by (simp add: workers_def)
  let ?P = "\<lambda>h. main_phase h = Waiting \<and> registered h < k \<or> main_phase h = Passed"
  have keep: "?P z" if "workers n (unat n) \<and> handshake_inv (unat n) y" "?P y" "handshake_step False n y z" for y z
    using that handshake_step_cases [OF assms(1) _ that(3)] unfolding n by (auto simp: handshake_inv_def split: if_splits)
  have "handshake_inv k h' \<and> ?P h'"
    using hs.reaches_with [OF assms(5), where P = ?P, OF _ _ keep] inv assms(1,3,4) by (simp add: n)
  moreover have False if "handshake_inv k h'" "main_phase h' = Waiting" "registered h' < k"
    using that assms(6) handshake_step.register [where h = h' and n = n and spurious = False] by (auto simp: stuck_def handshake_inv_def)
  ultimately show ?thesis by blast
qed

theorem handshake_wakes_witness:
  "\<exists>h'. stuck 1 h' \<and> main_phase h' = Passed"
proof -
  have "stuck 1 \<lparr>started = 1, registered = 1, init_count = 1, main_phase = Passed\<rparr>"
    by (auto simp: stuck_def elim!: handshake_stepE)
  with handshake_wakes [OF workersI [of 1 1] one_worker_waits _ _ one_worker_passes] show ?thesis
    by (auto simp: INT_MAX_def)
qed

lemma create_reaches:
  "k \<le> unat n \<Longrightarrow> handshake_reaches n handshake_start (handshake_start\<lparr>started := k\<rparr>)"
proof (induction k)
  case 0
  then show ?case by (simp add: handshake_start_def)
next
  case (Suc k)
  have "handshake_step False n (handshake_start\<lparr>started := k\<rparr>) (handshake_start\<lparr>started := Suc k\<rparr>)"
    using handshake_step.create [where h = "handshake_start\<lparr>started := k\<rparr>" and n = n and spurious = False] Suc.prems by (simp add: handshake_start_def)
  with Suc show ?case by (auto intro: rtranclp.rtrancl_into_rtrancl)
qed

lemma register_reaches:
  assumes "workers n k" and "main_phase h = Creating" and "handshake_inv k h"
  shows "registered h + m \<le> started h \<Longrightarrow>
    handshake_reaches n h (h\<lparr>registered := registered h + m, init_count := int (registered h + m)\<rparr>)"
proof (induction m)
  case 0
  have "h\<lparr>registered := registered h + 0, init_count := int (registered h + 0)\<rparr> = h"
    using assms(3) by (cases h) (simp add: handshake_inv_def)
  then show ?case by simp
next
  case (Suc m)
  let ?h = "h\<lparr>registered := registered h + m, init_count := int (registered h + m)\<rparr>"
  have inv: "handshake_inv k ?h" using assms(2,3) Suc.prems by (auto simp: handshake_inv_def)
  have "handshake_step False n ?h (RegisterThreadInitialized n ?h)"
    by (rule handshake_step.register) (use Suc.prems in simp)
  also have "RegisterThreadInitialized n ?h =
      h\<lparr>registered := registered h + Suc m, init_count := int (registered h + Suc m)\<rparr>"
    using RegisterThreadInitialized_simp [OF assms(1) inv] Suc.prems assms(2) by simp
  finally show ?case using Suc by (auto intro: rtranclp.rtrancl_into_rtrancl)
qed

text \<open>
  C26. The wake-up can be lost: for every number of workers there is a run in which all of
  them register before the main thread waits; then no step is left but a wake-up that has
  no signal, so the main thread waits for ever, although every worker is ready, and the server never accepts a connection.
\<close>

theorem handshake_lost_wakeup:
  assumes "workers n k"
  shows "\<exists>h. handshake_reaches n handshake_start h \<and> main_phase h = Waiting \<and> registered h = k \<and> stuck n h"
proof -
  let ?a = "handshake_start\<lparr>started := k\<rparr>"
  let ?b = "?a\<lparr>registered := k, init_count := int k\<rparr>"
  let ?c = "WaitForThreadRegistration ?b"
  have n: "unat n = k" using assms by (simp add: workers_def)
  have inv: "handshake_inv k ?a" by (simp add: handshake_inv_def handshake_start_def)
  have "handshake_reaches n handshake_start ?a" by (rule create_reaches) (simp add: n)
  moreover have "handshake_reaches n ?a ?b"
    using register_reaches [OF assms _ inv, of k] by (simp add: handshake_start_def)
  moreover have "handshake_step False n ?b ?c"
    by (rule handshake_step.wait) (simp_all add: handshake_start_def n)
  ultimately have "handshake_reaches n handshake_start ?c" by simp
  moreover have "stuck n ?c"
    by (auto simp: stuck_def WaitForThreadRegistration_def handshake_start_def elim!: handshake_stepE)
  ultimately show ?thesis by (intro exI [of _ ?c]) (simp add: WaitForThreadRegistration_def)
qed

theorem handshake_lost_wakeup_witness:
  "\<exists>h. handshake_reaches 4 handshake_start h \<and> main_phase h = Waiting \<and> registered h = 4 \<and> stuck 4 h"
  using handshake_lost_wakeup [OF workersI [of 4 4]] by (simp add: INT_MAX_def)

end
