(* ===== verification/Master.thy ===== *)
theory Master
  imports Workers SocketWrapper PrinterToMySQL
begin

section \<open>master_thread.cc and RRMode.cpp: the listener and the start of the process\<close>

text \<open>
  The master thread opens the listening socket, starts the workers, and hands every
  accepted connection to one of them.  \<open>net_env\<close> holds what the system calls of the
  start return; descriptors that the code closes are collected in a list.  \<open>main\<close> is the
  composition of the start-up steps with their exit statuses.
\<close>

definition BACKLOG :: int where
  "BACKLOG = 50"

record listener =
  l_port :: "16 word"
  l_backlog :: int

record net_env =
  version :: string
  new_socket :: int
  reuse_ok :: bool
  nodelay_ok :: bool
  bind_ok :: bool
  listen_ok :: bool
  listen_event_ok :: bool
  threads :: start_env

record CMasterThread =
  remote_listen_socket :: int
  listening :: "listener option"
  closed :: "int list"
  worker_thread :: CWorkerThread

definition new_master :: CMasterThread where
  "new_master = \<lparr>remote_listen_socket = 0, listening = None, closed = [], worker_thread = new_workers\<rparr>"

text \<open>\<open>strncmp(libevent_version, "2", 1) == 0\<close>\<close>

definition CheckLibeventVersion :: "string \<Rightarrow> bool" where
  "CheckLibeventVersion libevent_version = (take 1 (c_str libevent_version) = ''2'')"

text \<open>\<open>htons\<close> takes the low 16 bits of its argument.\<close>

definition InitRemoteListenSocket :: "net_env \<Rightarrow> CGlobalSettings \<Rightarrow> CMasterThread \<Rightarrow> bool \<times> CMasterThread" where
  "InitRemoteListenSocket env g m =
     (let listen_socket = new_socket env;
          m1 = m\<lparr>remote_listen_socket := listen_socket\<rparr>;
          failed = m1\<lparr>closed := closed m1 @ [listen_socket]\<rparr>
      in if listen_socket < 0 then (False, m1)
         else if \<not> reuse_ok env then (False, failed)
         else if \<not> nodelay_ok env then (False, failed)
         else if \<not> bind_ok env then (False, failed)
         else if \<not> listen_ok env then (False, failed)
         else (True, m1\<lparr>listening := Some \<lparr>l_port = word_of_int (remote_listen_port g), l_backlog = BACKLOG\<rparr>\<rparr>))"

datatype start_result = Ready | Failed | Exits int

definition InitMasterThread ::
  "net_env \<Rightarrow> CGlobalSettings \<Rightarrow> freelist \<Rightarrow> CMasterThread \<Rightarrow> (start_result \<times> freelist \<times> CMasterThread) outcome" where
  "InitMasterThread env g fl m =
     (if \<not> CheckLibeventVersion (version env) then Inr (Failed, fl, m)
      else (case InitRemoteListenSocket env g m of
          (ok, m1) \<Rightarrow>
            if \<not> ok then Inr (Failed, fl, m1)
            else if \<not> listen_event_ok env then Inr (Failed, fl, m1)
            else bindE (InitThreads (threads env) (thread_num g) fl (worker_thread m1)) (\<lambda>(r, fl1, w).
                   let m2 = m1\<lparr>worker_thread := w\<rparr>
                   in Inr (case r of
                        InitFalse \<Rightarrow> (Failed, fl1, m2)
                      | InitExit e \<Rightarrow> (Exits e, fl1, m2)
                      | InitWaits \<Rightarrow> (Ready, fl1, m2)))))"

text \<open>What \<open>event_base_dispatch\<close> returned: with -1 or 1 the process exits.\<close>

definition Run :: "int \<Rightarrow> unit or_exit" where
  "Run ret = (if ret = - 1 then Inl 1 else if ret = 1 then Inl 1 else Inr ())"

record accept_env =
  accepted_fd :: int
  getfl :: int
  setfl :: "int \<Rightarrow> int"
  notify_wrote :: bool

definition AccepCb :: "accept_env \<Rightarrow> u32 \<Rightarrow> CMasterThread \<Rightarrow> CMasterThread outcome" where
  "AccepCb env n pThis =
     (let fd = accepted_fd env
      in if fd = - 1 then Inr pThis
         else if \<not> SetSocketNoBlock (getfl env) (setfl env) then Inr (pThis\<lparr>closed := closed pThis @ [fd]\<rparr>)
         else bindE (DispatchSfdToWorker n (notify_wrote env) fd (worker_thread pThis)) (\<lambda>w.
                Inr (pThis\<lparr>worker_thread := w\<rparr>)))"

subsection \<open>main\<close>

record main_env =
  paths :: path_env
  net :: net_env
  daemon_result :: int
  signal_ok :: bool
  dispatch_result :: int

text \<open>
  \<open>RRMode.cpp\<close>: the result of the connection to the database is only logged.  The value is
  the exit status of the process with the database afterwards; \<open>exit\<close> and a return from
  \<open>main\<close> are not told apart.
\<close>

definition start_server :: "main_env \<Rightarrow> process \<Rightarrow> freelist \<Rightarrow> int outcome" where
  "start_server env p fl =
     bindE (InitMasterThread (net env) (settings p) fl new_master) (\<lambda>(r, fl1, m).
       case r of
         Failed \<Rightarrow> Inr EXIT_FAILURE
       | Exits e \<Rightarrow> Inr e
       | Ready \<Rightarrow> Inr (case Run (dispatch_result env) of Inl e \<Rightarrow> e | Inr _ \<Rightarrow> 0))"

definition main :: "'db mysql_api \<Rightarrow> main_env \<Rightarrow> process \<Rightarrow> freelist \<Rightarrow> 'db \<Rightarrow> (int \<times> 'db) outcome" where
  "main api env p fl db =
     (case InitMySQL api db of (_, db1) \<Rightarrow>
       (case ConnMySQL api ''127.0.0.1'' ''3306'' ''3d'' ''momo'' ''momo12'' ''GBK'' db1 of (_, db2) \<Rightarrow>
         (case InitConfigure (paths env) (p\<lparr>printer_set := True\<rparr>) of
            Inl e \<Rightarrow> Inr (e, db2)
          | Inr p1 \<Rightarrow>
              bindE (SettingsAndPrint p1) (\<lambda>p2.
                if daemon_result env \<noteq> 0 then Inr (- 1, db2)
                else if \<not> signal_ok env then Inr (EXIT_FAILURE, db2)
                else bindE (start_server env p2 fl) (\<lambda>e. Inr (e, db2))))))"

definition SIGTERM :: int where
  "SIGTERM = 15"

text \<open>
  On SIGTERM the printer is deleted, which closes the connection to the database, and the
  process exits with status 0 (\<open>Some 0\<close>).
\<close>

definition sig_term :: "'db mysql_api \<Rightarrow> int \<Rightarrow> process \<Rightarrow> 'db \<Rightarrow> int option \<times> process \<times> 'db" where
  "sig_term api signo p db =
     (if signo = SIGTERM
      then (if printer_set p then (Some 0, p\<lparr>printer_set := False\<rparr>, CloseMySQLConn api db) else (Some 0, p, db))
      else (None, p, db))"

subsection \<open>Properties\<close>

text \<open>
  The listening socket: the call succeeds exactly when every system call does, and the
  socket then listens on the low 16 bits of the configured port.  When a later call fails,
  the socket that was opened is closed, once, and nothing listens.
\<close>

theorem InitRemoteListenSocket_result:
  "case InitRemoteListenSocket env g m of
     (ok, m') \<Rightarrow>
       ok = (0 \<le> new_socket env \<and> reuse_ok env \<and> nodelay_ok env \<and> bind_ok env \<and> listen_ok env) \<and>
       closed m' = closed m @ (if ok \<or> new_socket env < 0 then [] else [new_socket env]) \<and>
       map_option (\<lambda>l. uint (l_port l)) (listening m') =
         (if ok then Some (remote_listen_port g mod 65536) else map_option (\<lambda>l. uint (l_port l)) (listening m)) \<and>
       worker_thread m' = worker_thread m"
  by (auto simp: InitRemoteListenSocket_def Let_def uint_word_of_int)

text \<open>Everything the start of the master thread needs from outside.\<close>

definition can_start :: "net_env \<Rightarrow> CGlobalSettings \<Rightarrow> bool" where
  "can_start env g \<longleftrightarrow> CheckLibeventVersion (version env) \<and>
     0 \<le> new_socket env \<and> reuse_ok env \<and> nodelay_ok env \<and> bind_ok env \<and> listen_ok env \<and> listen_event_ok env \<and>
     (\<forall>i<unat (thread_num g). pipe_of (threads env) i \<noteq> None \<and> add_ok (threads env) i \<and> create_ok (threads env) i)"

lemma InitMasterThread_cases:
  "\<exists>r fl1 m'. InitMasterThread env g fl new_master = Inr (r, fl1, m') \<and> r \<in> {Failed, Exits 1, Ready} \<and>
     (r = Ready \<longleftrightarrow> can_start env g) \<and>
     (r = Ready \<longrightarrow> fresh_pool (unat (thread_num g)) (worker_thread m') \<and> fl1 = InitFreeConns fl \<and>
        listening m' = Some \<lparr>l_port = word_of_int (remote_listen_port g), l_backlog = BACKLOG\<rparr>)"
proof -
  obtain r w where r: "InitThreads (threads env) (thread_num g) fl new_workers = Inr (r, InitFreeConns fl, w)"
    "r \<in> {InitFalse, InitExit 1, InitWaits}"
    "r = InitWaits \<longleftrightarrow> (\<forall>i<unat (thread_num g). pipe_of (threads env) i \<noteq> None \<and> add_ok (threads env) i \<and>
       create_ok (threads env) i)" "r = InitWaits \<longrightarrow> fresh_pool (unat (thread_num g)) w"
    using InitThreads_cases [of "threads env" "thread_num g" fl] by blast
  define sock_ok where "sock_ok = (0 \<le> new_socket env \<and> reuse_ok env \<and> nodelay_ok env \<and> bind_ok env \<and> listen_ok env)"
  define m1 where "m1 = snd (InitRemoteListenSocket env g new_master)"
  have "fst (InitRemoteListenSocket env g new_master) = sock_ok"
    by (simp add: InitRemoteListenSocket_def Let_def sock_ok_def)
  then have m1: "InitRemoteListenSocket env g new_master = (sock_ok, m1)"
    by (simp add: m1_def prod_eq_iff)
  have "worker_thread m1 = new_workers"
    "sock_ok \<Longrightarrow> listening m1 = Some \<lparr>l_port = word_of_int (remote_listen_port g), l_backlog = BACKLOG\<rparr>"
    by (simp_all add: m1_def InitRemoteListenSocket_def Let_def sock_ok_def new_master_def)
  note m1 = m1 this
  have start: "can_start env g \<longleftrightarrow> CheckLibeventVersion (version env) \<and> sock_ok \<and> listen_event_ok env \<and> r = InitWaits"
    using r(3) by (auto simp: can_start_def sock_ok_def)
  show ?thesis
    using r(1,2,4) m1 by (cases r) (auto simp: InitMasterThread_def start)
qed

text \<open>
  The master thread is ready exactly when libevent is version 2, the socket listens,
  the listen event is added and all workers could be started; then it listens on the
  configured port, has a fresh worker for each configured thread and an empty pool of
  connections.  No start raises.
\<close>

theorem InitMasterThread_ready:
  "\<exists>r fl1 m'. InitMasterThread env g fl new_master = Inr (r, fl1, m') \<and>
     (r = Ready \<longleftrightarrow> can_start env g) \<and>
     (r = Ready \<longrightarrow> fresh_pool (unat (thread_num g)) (worker_thread m') \<and> fl1 = InitFreeConns fl \<and>
        listening m' = Some \<lparr>l_port = word_of_int (remote_listen_port g), l_backlog = BACKLOG\<rparr>)"
  using InitMasterThread_cases [of env g fl] by blast

definition good_net :: net_env where
  "good_net = \<lparr>version = ''2.0.21-stable'', new_socket = 5, reuse_ok = True, nodelay_ok = True, bind_ok = True,
     listen_ok = True, listen_event_ok = True, threads = good_start\<rparr>"

definition small_settings :: CGlobalSettings where
  "small_settings = \<lparr>remote_listen_port = 12006, thread_num = 4, client_heartbeat_timeout = 70\<rparr>"

lemma good_net_starts: "can_start good_net small_settings"
  by (simp add: can_start_def good_net_def good_start_def CheckLibeventVersion_def c_str_def NUL_def)

theorem InitMasterThread_ready_witness:
  "\<exists>fl1 m'. InitMasterThread good_net small_settings static_freelist new_master = Inr (Ready, fl1, m') \<and>
     fresh_pool 4 (worker_thread m')"
  using InitMasterThread_ready [of good_net small_settings static_freelist] good_net_starts
  by (auto simp: small_settings_def)

text \<open>
  The exit status of the program, once the configuration is read: -1 when it cannot
  become a daemon, 1 when the signal handler or the master thread cannot be set up or the
  event loop fails, and otherwise 0.  Whether the database answered makes no difference.
\<close>

theorem main_status:
  assumes "InitConfigure (paths env) (p\<lparr>printer_set := True\<rparr>) = Inr p1" and "SettingsAndPrint p1 = Inr p2"
  shows "\<exists>db'. main api env p fl db = Inr
    (if daemon_result env \<noteq> 0 then - 1
     else if signal_ok env \<and> can_start (net env) (settings p2) \<and> dispatch_result env \<notin> {- 1, 1} then 0 else 1, db')"
proof -
  obtain r fl1 m where m: "InitMasterThread (net env) (settings p2) fl new_master = Inr (r, fl1, m)"
    "r \<in> {Failed, Exits 1, Ready}" "r = Ready \<longleftrightarrow> can_start (net env) (settings p2)"
    using InitMasterThread_cases [of "net env" "settings p2" fl] by blast
  then have "start_server env p2 fl =
      Inr (if can_start (net env) (settings p2) \<and> dispatch_result env \<notin> {- 1, 1} then 0 else 1)"
    by (cases r) (auto simp: start_server_def Run_def EXIT_FAILURE_def)
  then show ?thesis
    using assms by (auto simp: main_def EXIT_FAILURE_def split: prod.splits)
qed

definition demo_main :: main_env where
  "demo_main = \<lparr>paths = \<lparr>cwd = Some ''/srv'', files = \<lambda>_. Some []\<rparr>, net = good_net, daemon_result = 0,
     signal_ok = True, dispatch_result = 0\<rparr>"

definition dead_api :: "unit mysql_api" where
  "dead_api = \<lparr>mysql_init = \<lambda>d. (True, d), mysql_options = \<lambda>_ d. d, mysql_real_connect = \<lambda>_ _ _ _ _ d. (False, d),
     mysql_set_character_set = \<lambda>_ d. (1, d), mysql_query = \<lambda>_ d. (1, d), mysql_store_result = \<lambda>d. (None, d),
     mysql_close = \<lambda>d. d\<rparr>"

theorem main_status_witness:
  "\<exists>db'. main dead_api demo_main demo_process static_freelist () = Inr (0, db')"
proof -
  have "load_loop [] (open_stream []) empty_config = (at_end, empty_config)"
    by (rule load_loop_nothing) (simp add: empty_config_def)
  then have init: "InitConfigure (paths demo_main) (demo_process\<lparr>printer_set := True\<rparr>) = Inr demo_process"
    by (simp add: demo_main_def demo_process_def InitConfigure_def GetCurrentPath_def LoadConfiguration_def load_config_def)
  have sett: "SettingsAndPrint demo_process = Inr demo_process"
    by (simp add: SettingsAndPrint_def read_default_def demo_process_def empty_config_def)
  have "can_start (net demo_main) (settings demo_process)"
    using good_net_starts by (simp add: demo_main_def demo_process_def small_settings_def)
  with main_status [OF init sett, of dead_api static_freelist "()"] show ?thesis
    by (simp add: demo_main_def)
qed

end
