(* ===== verification/Server.thy ===== *)
theory Server
  imports Master HandlerProps
begin

section \<open>The running server: accept, hand-over, requests, end\<close>

text \<open>
  The state of the running server is the master (with its workers), the connections and
  the input and output of the handlers.  A step is one callback of one event loop: the
  master's \<open>AccepCb\<close>, a worker's \<open>ReadPipeCb\<close>, the read callback or the event callback of a
  live bufferevent.  Callbacks of several workers run at the same time in the program; the
  pool and the queues are guarded by their mutexes, and the steps here are whole
  callbacks.  What the allocator returns is constrained by \<open>fresh_env\<close> alone, the socket
  that \<open>accept\<close> returns and the bytes of a client are arbitrary.
\<close>

record 'db server =
  master :: CMasterThread
  conns :: conn_store
  sio :: "'db io"

inductive server_step ::
  "'db mysql_api \<Rightarrow> (int \<Rightarrow> in_addr) \<Rightarrow> CGlobalSettings \<Rightarrow> 'db server \<Rightarrow> 'db server \<Rightarrow> bool"
  for api peer g where
  accept: "AccepCb env (thread_num g) (master s) = Inr m \<Longrightarrow> server_step api peer g s (s\<lparr>master := m\<rparr>)"
| notify: "tid < length (vec_libevent_thread (worker_thread (master s))) \<Longrightarrow> fresh_env env (conns s) \<Longrightarrow>
    heartbeat env = client_heartbeat_timeout g \<Longrightarrow>
    ReadPipeCb env tid (worker_thread (master s), conns s) = Inr (w, st) \<Longrightarrow>
    server_step api peer g s (s\<lparr>master := (master s)\<lparr>worker_thread := w\<rparr>, conns := st\<rparr>)"
| data: "live (conns s) bev = Some x \<Longrightarrow> length chunk \<le> BUFSIZE \<Longrightarrow>
    start_routine api peer bev (cbarg x) chunk (conns s, sio s) = Inr (st, r) \<Longrightarrow>
    server_step api peer g s (s\<lparr>conns := st, sio := r\<rparr>)"
| event: "live (conns s) bev = Some x \<Longrightarrow> ClientTcpErrorCb bev ev (cbarg x) (conns s) = Inr st \<Longrightarrow>
    server_step api peer g s (s\<lparr>conns := st\<rparr>)"

inductive_cases server_stepE: "server_step api peer g s s'"

definition start_state :: "CMasterThread \<Rightarrow> freelist \<Rightarrow> 'db io \<Rightarrow> 'db server" where
  "start_state m fl r = \<lparr>master = m, conns = start_store fl, sio = r\<rparr>"

subsection \<open>Invariant\<close>

definition workers_ok :: "nat \<Rightarrow> CWorkerThread \<Rightarrow> bool" where
  "workers_ok k w \<longleftrightarrow> (\<exists>ds served. pool_rel k ds served w)"

definition server_inv :: "nat \<Rightarrow> 'db server \<Rightarrow> bool" where
  "server_inv k s \<longleftrightarrow> store_inv (conns s) \<and> owned (conns s) \<and> workers_ok k (worker_thread (master s))"

lemma AccepCb_workers:
  assumes "AccepCb env n m = Inr m'" and "unat n = k" and "0 < k" and "int k \<le> INT_MAX" and "workers_ok k (worker_thread m)"
  shows "workers_ok k (worker_thread m')"
proof -
  from assms(5) obtain ds served where rel: "pool_rel k ds served (worker_thread m)" by (auto simp: workers_ok_def)
  obtain w where w: "DispatchSfdToWorker n (notify_wrote env) (accepted_fd env) (worker_thread m) = Inr w"
    "pool_rel k (ds @ [accepted_fd env]) served w"
    using Dispatch_result [OF rel assms(2-4)] by blast
  then have "worker_thread m' = worker_thread m \<or> worker_thread m' = w"
    using assms(1) by (auto simp: AccepCb_def Let_def split: if_splits)
  with rel w(2) show ?thesis unfolding workers_ok_def by metis
qed

lemma ReadPipeCb_inv:
  assumes "ReadPipeCb env tid (w, st) = Inr (w', st')" and "tid < k" and "workers_ok k w"
    and "store_inv st" and "owned st" and "fresh_env env st"
  shows "store_inv st' \<and> owned st' \<and> workers_ok k w'"
proof -
  from assms(3) obtain ds served where rel: "pool_rel k ds served w" by (auto simp: workers_ok_def)
  from read_notify_result [OF rel assms(2)] ReadPipeCb_workers [OF assms(1)]
  have "workers_ok k w'" by (auto simp: workers_ok_def split: prod.splits)
  moreover have "store_inv st' \<and> owned st'"
    using assms(1,4-6) InitNewConn_result [OF assms(4,6)]
    by (fastforce simp: ReadPipeCb_def split: prod.splits option.splits if_splits)
  ultimately show ?thesis by blast
qed

lemma mark_verified_inv:
  assumes "heap st a = Some c" and "store_inv st" and "owned st"
  shows "store_inv (st\<lparr>heap := (heap st)(a \<mapsto> c\<lparr>isVerify := True\<rparr>)\<rparr>) \<and>
    owned (st\<lparr>heap := (heap st)(a \<mapsto> c\<lparr>isVerify := True\<rparr>)\<rparr>)"
proof -
  have "dom ((heap st)(a \<mapsto> c\<lparr>isVerify := True\<rparr>)) = dom (heap st)" using assms(1) by auto
  then show ?thesis
    using assms unfolding store_inv_def owned_def by (auto split: if_splits)
qed

lemma start_routine_inv:
  assumes "start_routine api peer bev a chunk (st, s) = Inr (st', s')" and "live st bev = Some x" and "cbarg x = a"
    and "store_inv st" and "owned st"
  shows "store_inv st' \<and> owned st'"
proof -
  obtain c where c: "heap st a = Some c"
    using assms(1) by (cases "heap st a") (auto simp: start_routine_def)
  let ?st1 = "st\<lparr>heap := (heap st)(a \<mapsto> c\<lparr>isVerify := True\<rparr>)\<rparr>"
  note inv1 = mark_verified_inv [OF c assms(4,5)]
  have live1: "live ?st1 bev = Some x" using assms(2) by simp
  have "st' = st \<or> st' = ?st1 \<or> CloseConn a bev ?st1 = Inr st'"
    using assms(1) c by (auto simp: start_routine_def Let_def split: if_splits)
  then show ?thesis
    using assms(4,5) inv1 CloseConn_result [OF _ live1 assms(3)] CloseConn_owned [OF _ live1 assms(3)] by blast
qed

lemma server_step_inv:
  assumes "server_step api peer g s s'" and "server_inv k s"
    and "unat (thread_num g) = k" and "0 < k" and "int k \<le> INT_MAX"
  shows "server_inv k s'"
  using assms(1)
proof cases
  case (accept env m)
  then show ?thesis using AccepCb_workers [OF _ assms(3-5)] assms(2) by (simp add: server_inv_def)
next
  case (notify tid env w st)
  then have "tid < k" using assms(2) by (auto simp: server_inv_def workers_ok_def pool_rel_def)
  with notify ReadPipeCb_inv [OF notify(5)] assms(2) show ?thesis by (simp add: server_inv_def)
next
  case (data bev x chunk st r)
  with start_routine_inv [OF data(4) data(2) refl] assms(2) show ?thesis by (simp add: server_inv_def)
next
  case (event bev x ev st)
  then have close: "CloseConn (cbarg x) bev (conns s) = Inr st" by (simp add: ClientTcpErrorCb_def)
  have inv: "store_inv (conns s)" "owned (conns s)" using assms(2) by (simp_all add: server_inv_def)
  with event CloseConn_result [OF inv(1) event(2) refl close] CloseConn_owned [OF inv(1) event(2) refl close inv(2)]
    assms(2) show ?thesis by (simp add: server_inv_def)
qed

text \<open>A number of workers that is positive and fits an \<open>int\<close>, as the dispatcher needs it.\<close>

definition worker_count :: "CGlobalSettings \<Rightarrow> nat \<Rightarrow> bool" where
  "worker_count g k \<longleftrightarrow> unat (thread_num g) = k \<and> 0 < k \<and> int k \<le> INT_MAX"

interpretation srv: invariant_steps "server_step api peer g"
    "\<lambda>s. worker_count g (unat (thread_num g)) \<and> server_inv (unat (thread_num g)) s" for api peer g
  by unfold_locales (auto simp: worker_count_def intro: server_step_inv)

lemma server_reaches_inv:
  assumes "(server_step api peer g)\<^sup>*\<^sup>* s s'" and "server_inv k s"
    and "unat (thread_num g) = k" and "0 < k" and "int k \<le> INT_MAX"
  shows "server_inv k s'"
  using srv.inv_reaches [OF assms(1)] assms(2-5) by (simp add: worker_count_def)

lemma server_inv_start: "fresh_pool k (worker_thread m) \<Longrightarrow> server_inv k (start_state m fl r)"
  using fresh_pool_rel [of k "worker_thread m"] start_store_owned [of fl]
  by (auto simp: server_inv_def start_state_def workers_ok_def)

subsection \<open>Callbacks that return\<close>

lemma AccepCb_total:
  assumes "workers_ok k (worker_thread m)" and "worker_count g k"
  shows "\<exists>m'. AccepCb env (thread_num g) m = Inr m'"
proof -
  obtain ds served where rel: "pool_rel k ds served (worker_thread m)" using assms(1) by (auto simp: workers_ok_def)
  have k: "unat (thread_num g) = k" "0 < k" "int k \<le> INT_MAX" using assms(2) by (simp_all add: worker_count_def)
  obtain w where "DispatchSfdToWorker (thread_num g) (notify_wrote env) (accepted_fd env) (worker_thread m) = Inr w"
    using Dispatch_result [OF rel k] by blast
  then show ?thesis by (auto simp: AccepCb_def Let_def)
qed

text \<open>Everything that \<open>InitNewConn\<close> asks for is there.\<close>

definition plenty :: "alloc_env \<Rightarrow> bool" where
  "plenty env \<longleftrightarrow> new_conn env \<noteq> None \<and> new_rBuf env \<noteq> None \<and> new_wBuf env \<noteq> None \<and> new_bev env \<noteq> None"

lemma InitNewConn_total:
  assumes "store_inv st" and "fresh_env env st" and "plenty env"
  shows "\<exists>a st'. InitNewConn env fd tid st = Inr (Some a, st')"
proof -
  obtain c r w b where env: "new_conn env = Some c" "new_rBuf env = Some r" "new_wBuf env = Some w" "new_bev env = Some b"
    using assms(3) by (auto simp: plenty_def)
  have "pool_inv (pool st)" using assms(1) by (simp add: store_inv_def)
  then have "\<exists>a st1. obtain_conn env st = Inr (Some a, st1)"
    by (rule fp.get_cases) (auto simp: obtain_conn_def env)
  then obtain a st1 where got: "obtain_conn env st = Inr (Some a, st1)" by blast
  with obtain_conn_result [OF assms(1,2)] have "a \<in> dom (heap st1)" by blast
  then show ?thesis using got env(4) by (auto simp: InitNewConn_def Let_def)
qed

lemma ReadPipeCb_total:
  assumes "store_inv st" and "fresh_env env st" and "plenty env"
  shows "\<exists>r. ReadPipeCb env tid (w, st) = Inr r"
proof -
  obtain c w1 where n: "read_notify tid w = (c, w1)" by fastforce
  show ?thesis
  proof (cases c)
    case (Some connInfo)
    obtain a st1 where "InitNewConn env (ci_sfd connInfo) tid st = Inr (Some a, st1)"
      using InitNewConn_total [OF assms] by blast
    then show ?thesis using n Some by (simp add: ReadPipeCb_def)
  qed (use n in \<open>simp add: ReadPipeCb_def\<close>)
qed

lemma CloseConn_total:
  assumes "store_inv st" and "length (pool_stack (pool st)) < POOL_MAX"
  shows "\<exists>st'. CloseConn a bev st = Inr st'"
proof -
  obtain p where "AddConnToFreelist a (pool st) = Inr (True, p)"
    using fp.put_room [of "pool st" a] assms by (auto simp: store_inv_def)
  then show ?thesis by (simp add: CloseConn_def)
qed

subsection \<open>Properties\<close>

text \<open>
  C13. Connection objects are never shared and never lost.  In every state that the running
  server reaches, two live connections have different objects, the object of a live
  connection exists and is not in the pool, the pool holds no object twice, and every
  object is in the pool or belongs to a live connection.
\<close>

theorem server_connections_safe:
  assumes "fresh_pool k (worker_thread m)" and "unat (thread_num g) = k" and "0 < k" and "int k \<le> INT_MAX"
    and "(server_step api peer g)\<^sup>*\<^sup>* (start_state m fl r) s"
  shows "inj_on (\<lambda>b. cbarg (the (live (conns s) b))) (dom (live (conns s))) \<and>
    distinct (pool_stack (pool (conns s))) \<and>
    (\<forall>b x. live (conns s) b = Some x \<longrightarrow> cbarg x \<notin> set (pool_stack (pool (conns s)))) \<and>
    dom (heap (conns s)) = set (pool_stack (pool (conns s))) \<union> cbarg ` ran (live (conns s))"
proof -
  have "server_inv k s"
    by (rule server_reaches_inv [OF assms(5) server_inv_start [OF assms(1)] assms(2-4)])
  then have inv: "store_inv (conns s)" "owned (conns s)" by (simp_all add: server_inv_def)
  have "inj_on (\<lambda>b. cbarg (the (live (conns s) b))) (dom (live (conns s)))"
    using inv(1) unfolding store_inv_def inj_on_def by auto
  then show ?thesis
    using inv unfolding store_inv_def owned_def by blast
qed

lemma accept_ten:
  "AccepCb \<lparr>accepted_fd = 10, getfl = 2, setfl = \<lambda>_. 0, notify_wrote = True\<rparr> 2 (new_master\<lparr>worker_thread := two_workers\<rparr>) =
     Inr (new_master\<lparr>worker_thread := two_workers\<lparr>vec_libevent_thread := [(new_thread (3, 4))\<lparr>
       list_conn := \<lparr>ts_list = [\<lparr>ci_sfd = 10\<rparr>]\<rparr>, pipe_len := 1\<rparr>, new_thread (5, 6)], last_thread := 0\<rparr>\<rparr>)"
  by (simp add: AccepCb_def SetSocketNoBlock_def new_master_def two_workers_def DispatchSfdToWorker_def INT_MAX_def
      new_thread_def push_back_def empty_list_def Let_def)

theorem server_connections_safe_witness:
  "\<exists>s. (server_step (recording_api []) local_peer (small_settings\<lparr>thread_num := 2\<rparr>))\<^sup>+\<^sup>+
      (start_state (new_master\<lparr>worker_thread := two_workers\<rparr>) static_freelist idle_io) s \<and>
    distinct (pool_stack (pool (conns s)))"
proof -
  let ?g = "small_settings\<lparr>thread_num := 2\<rparr>"
  let ?m = "new_master\<lparr>worker_thread := two_workers\<rparr>"
  let ?s = "start_state ?m static_freelist idle_io"
  have "thread_num ?g = 2" by simp
  with accept_ten have "AccepCb \<lparr>accepted_fd = 10, getfl = 2, setfl = \<lambda>_. 0, notify_wrote = True\<rparr> (thread_num ?g) (master ?s) =
      Inr (new_master\<lparr>worker_thread := two_workers\<lparr>vec_libevent_thread := [(new_thread (3, 4))\<lparr>
       list_conn := \<lparr>ts_list = [\<lparr>ci_sfd = 10\<rparr>]\<rparr>, pipe_len := 1\<rparr>, new_thread (5, 6)], last_thread := 0\<rparr>\<rparr>)"
    by (simp add: start_state_def)
  from server_step.accept [OF this] obtain s where s: "server_step (recording_api []) local_peer ?g ?s s" by blast
  have "fresh_pool 2 (worker_thread ?m)" by (simp add: fresh_pool_def two_workers_def new_thread_def)
  from server_connections_safe [OF this _ _ _ r_into_rtranclp, OF _ _ _ s] s show ?thesis
    by (auto simp: INT_MAX_def)
qed

text \<open>
  The token gate does not hold.  A client that sends five bytes which are not the
  token is closed, but its object goes to the pool marked as verified; the next
  connection that a worker takes up gets this object and starts verified.  So a second
  connection right after a refused one has its requests executed without a token.
\<close>

theorem token_gate_bypass:
  assumes "store_inv st" and "live st bev = Some x" and "heap st (cbarg x) = Some c" and "\<not> isVerify c"
    and "TOKEN_LENGTH \<le> length chunk" and "take TOKEN_LENGTH (xor_text chunk) \<noteq> TOKEN_STR"
    and "start_routine api peer bev (cbarg x) chunk (st, s) = Inr (st1, s1)" and "new_bev env = Some b"
  shows "s1 = s \<and> (\<exists>st2. InitNewConn env fd tid st1 = Inr (Some (cbarg x), st2) \<and>
    (\<forall>str. start_routine api peer b (cbarg x) (xor_text str) (st2, s) =
       bindE (serve_chunk api peer fd str s) (\<lambda>s2. Inr (st2, s2))))"
proof -
  let ?a = "cbarg x"
  let ?st = "st\<lparr>heap := (heap st)(?a \<mapsto> c\<lparr>isVerify := True\<rparr>)\<rparr>"
  have close: "CloseConn ?a bev ?st = Inr st1" and s1: "s1 = s"
    using assms(3-7) by (auto simp: start_routine_def Let_def)
  have dom: "dom ((heap st)(?a \<mapsto> c\<lparr>isVerify := True\<rparr>)) = dom (heap st)" using assms(3) by auto
  then have "store_inv ?st" using assms(1,3) unfolding store_inv_def by (auto split: if_splits)
  from CloseConn_result [OF this _ refl close] assms(2)
  have st1: "store_inv st1" "pool_stack (pool st1) = ?a # pool_stack (pool st)"
    "heap st1 ?a = Some (c\<lparr>isVerify := True\<rparr>)" by auto
  from InitNewConn_recycles [OF st1 assms(8)] obtain st2 where
    "InitNewConn env fd tid st1 = Inr (Some ?a, st2)" "heap st2 ?a = Some (init_fields fd tid (c\<lparr>isVerify := True\<rparr>))"
    by blast
  then show ?thesis
    using s1 by (auto simp: start_routine_def Let_def init_fields_def)
qed

theorem token_gate_bypass_witness:
  "\<exists>st1 st2. start_routine (recording_api []) local_peer 1 1 (xor_text ''wrong'')
      ((start_store static_freelist)\<lparr>heap := [1 \<mapsto> buffered_conn], live := [1 \<mapsto> \<lparr>cbarg = 1, read_timeout = 70\<rparr>]\<rparr>,
       idle_io) = Inr (st1, idle_io) \<and>
    InitNewConn example_env 8 0 st1 = Inr (Some 1, st2) \<and>
    start_routine (recording_api []) local_peer 1 1 (xor_text (''xxxxx4   bob   pw   '' @ CRLF)) (st2, idle_io) =
      Inr (st2, idle_io\<lparr>dbs := [sql_delete_user '''']\<rparr>)"
proof -
  let ?x = "\<lparr>cbarg = 1, read_timeout = 70\<rparr>"
  let ?st = "(start_store static_freelist)\<lparr>heap := [1 \<mapsto> buffered_conn], live := [1 \<mapsto> ?x]\<rparr>"
  have inv: "store_inv ?st" by (simp add: store_inv_def buffered_conn_def)
  have wrong: "\<not> isVerify buffered_conn" "TOKEN_LENGTH \<le> length (xor_text ''wrong'')"
    "take TOKEN_LENGTH (xor_text (xor_text ''wrong'')) \<noteq> TOKEN_STR"
    by (simp_all add: buffered_conn_def example_conn_def TOKEN_LENGTH_def TOKEN_STR_def)
  obtain p where "AddConnToFreelist 1 (pool ?st) = Inr (True, p)"
    using fp.put_room [of "pool ?st" 1] by (auto simp: POOL_MAX_def)
  then obtain st1 where first: "start_routine (recording_api []) local_peer 1 (cbarg ?x) (xor_text ''wrong'') (?st, idle_io) = Inr (st1, idle_io)"
    using wrong by (simp add: start_routine_def Let_def CloseConn_def)
  have "serve_chunk (recording_api []) local_peer 8 (''xxxxx4   bob   pw   '' @ CRLF) idle_io =
      Inr (idle_io\<lparr>dbs := [sql_delete_user '''']\<rparr>)"
    by code_simp
  moreover have "live ?st 1 = Some ?x" "heap ?st (cbarg ?x) = Some buffered_conn" by simp_all
  from token_gate_bypass [OF inv this wrong first, of example_env 1 8 0]
  obtain st2 where st2: "InitNewConn example_env 8 0 st1 = Inr (Some 1, st2)"
    "\<forall>str. start_routine (recording_api []) local_peer 1 1 (xor_text str) (st2, idle_io) =
       bindE (serve_chunk (recording_api []) local_peer 8 str idle_io) (\<lambda>s2. Inr (st2, s2))"
    by (auto simp: example_env_def)
  ultimately show ?thesis using first by auto
qed

lemma Dispatch_first:
  assumes "vec_libevent_thread w = t # ts" and "last_thread w = - 1" and "n \<noteq> 0"
  shows "DispatchSfdToWorker n True fd w = Inr (w\<lparr>vec_libevent_thread := t\<lparr>list_conn := push_back \<lparr>ci_sfd = fd\<rparr> (list_conn t),
    pipe_len := pipe_len t + 1\<rparr> # ts, last_thread := 0\<rparr>)"
  using assms by (simp add: DispatchSfdToWorker_def INT_MAX_def Let_def)

lemma notify_first:
  assumes "vec_libevent_thread w = t\<lparr>list_conn := \<lparr>ts_list = [\<lparr>ci_sfd = fd\<rparr>]\<rparr>, pipe_len := 1\<rparr> # ts" and "fd \<noteq> 0"
    and "store_inv st" and "pool_stack (pool st) = []" and "new_conn env = Some a" and "new_rBuf env = Some rb"
    and "new_wBuf env = Some wb" and "new_bev env = Some b"
  shows "\<exists>w' st' c. ReadPipeCb env 0 (w, st) = Inr (w', st') \<and> live st' b = Some \<lparr>cbarg = a, read_timeout = heartbeat env\<rparr> \<and>
    heap st' a = Some c \<and> sfd c = fd"
proof -
  have "GetConnFromFreelist (pool st) = Inr (None, pool st)"
    using assms(3,4) by (intro fp.get_empty) (simp_all add: store_inv_def)
  then show ?thesis
    using assms by (simp add: ReadPipeCb_def read_notify_def pop_front_def Let_def InitNewConn_def obtain_conn_def init_fields_def)
qed

lemma serves_request:
  assumes "fresh_pool k (worker_thread m)" and "0 < k" and "unat (thread_num g) = k" and "fd \<noteq> 0" and "fd \<noteq> - 1"
    and "sendable fs" and "length (request_text fs @ CRLF) \<le> BUFSIZE" and "run_command api peer fd fs r = Inr r'"
  shows "\<exists>s. (server_step api peer g)\<^sup>+\<^sup>+ (start_state m fl r) s \<and> sio s = r'"
proof -
  let ?s0 = "start_state m fl r"
  obtain t ts where vec: "vec_libevent_thread (worker_thread m) = t # ts" and last: "last_thread (worker_thread m) = - 1"
    using assms(1,2) by (cases "vec_libevent_thread (worker_thread m)") (auto simp: fresh_pool_def)
  have t: "list_conn t = empty_list" "pipe_len t = 0" using assms(1) vec by (auto simp: fresh_pool_def)
  define w1 where "w1 = (worker_thread m)\<lparr>vec_libevent_thread :=
      t\<lparr>list_conn := \<lparr>ts_list = [\<lparr>ci_sfd = fd\<rparr>]\<rparr>, pipe_len := 1\<rparr> # ts, last_thread := 0\<rparr>"
  have n: "thread_num g \<noteq> 0" using assms(2,3) by auto
  have "AccepCb \<lparr>accepted_fd = fd, getfl = 2, setfl = \<lambda>_. 0, notify_wrote = True\<rparr> (thread_num g) (master ?s0) =
      Inr (m\<lparr>worker_thread := w1\<rparr>)"
    using Dispatch_first [OF vec last n, of fd] t assms(5)
    by (simp add: AccepCb_def SetSocketNoBlock_def start_state_def w1_def push_back_def empty_list_def)
  from server_step.accept [OF this, of api peer]
  have step1: "server_step api peer g ?s0 (?s0\<lparr>master := m\<lparr>worker_thread := w1\<rparr>\<rparr>)" .
  let ?s1 = "?s0\<lparr>master := m\<lparr>worker_thread := w1\<rparr>\<rparr>"
  let ?env = "example_env\<lparr>heartbeat := client_heartbeat_timeout g\<rparr>"
  have w1: "vec_libevent_thread w1 = t\<lparr>list_conn := \<lparr>ts_list = [\<lparr>ci_sfd = fd\<rparr>]\<rparr>, pipe_len := 1\<rparr> # ts"
    by (simp add: w1_def)
  from notify_first [OF w1 assms(4), of "start_store fl" ?env 1 "[]" "[]" 1] obtain w2 st2 c where
    two: "ReadPipeCb ?env 0 (w1, start_store fl) = Inr (w2, st2)" "heap st2 1 = Some c" "sfd c = fd"
      "live st2 1 = Some \<lparr>cbarg = 1, read_timeout = client_heartbeat_timeout g\<rparr>"
    by (auto simp: example_env_def)
  have "server_step api peer g ?s1 (?s1\<lparr>master := (master ?s1)\<lparr>worker_thread := w2\<rparr>, conns := st2\<rparr>)"
    by (rule server_step.notify [of 0 _ ?env]) (use two(1) w1 in \<open>simp_all add: start_state_def fresh_env_def\<close>)
  note step2 = this
  let ?s2 = "?s1\<lparr>master := (master ?s1)\<lparr>worker_thread := w2\<rparr>, conns := st2\<rparr>"
  have "find_str CRLF [] = None" by (simp add: CRLF_def)
  from start_routine_run [OF two(2), of "[fs]" "[]" api peer 1 r, OF _ _ this] assms(6,8) two(3)
  have "start_routine api peer 1 1 (xor_text (request_text fs @ CRLF)) (st2, r) =
      Inr (st2\<lparr>heap := (heap st2)(1 \<mapsto> c\<lparr>isVerify := True\<rparr>)\<rparr>, r')" by simp
  then have "server_step api peer g ?s2 (?s2\<lparr>conns := st2\<lparr>heap := (heap st2)(1 \<mapsto> c\<lparr>isVerify := True\<rparr>)\<rparr>, sio := r'\<rparr>)"
    by (intro server_step.data [of _ 1 "\<lparr>cbarg = 1, read_timeout = client_heartbeat_timeout g\<rparr>"
          "xor_text (request_text fs @ CRLF)"]) (use two(4) assms(7) in \<open>simp_all add: start_state_def\<close>)
  with step1 step2 have "(server_step api peer g)\<^sup>+\<^sup>+ ?s0
      (?s2\<lparr>conns := st2\<lparr>heap := (heap st2)(1 \<mapsto> c\<lparr>isVerify := True\<rparr>)\<rparr>, sio := r'\<rparr>)"
    by (meson tranclp.r_into_trancl tranclp.trancl_into_trancl)
  moreover have "sio (?s2\<lparr>conns := st2\<lparr>heap := (heap st2)(1 \<mapsto> c\<lparr>isVerify := True\<rparr>)\<rparr>, sio := r'\<rparr>) = r'" by simp
  ultimately show ?thesis by blast
qed

text \<open>
  A request is served. From the fresh server, a client that connects and sends a well
  formed request as its first bytes gets it executed: the master accepts and dispatches the
  socket, the first worker takes it up, and the handler runs the request on its fields.
\<close>

theorem server_serves_request:
  assumes "fresh_pool k (worker_thread m)" and "0 < k" and "unat (thread_num g) = k" and "fd \<noteq> 0" and "fd \<noteq> - 1"
    and "sendable fs" and "length (request_text fs @ CRLF) \<le> BUFSIZE" and "run_command api peer fd fs r = Inr r'"
  shows "\<exists>s. (server_step api peer g)\<^sup>+\<^sup>+ (start_state m fl r) s \<and> sio s = r'"
  using assms by (rule serves_request)

theorem server_serves_request_witness:
  "\<exists>s. (server_step (recording_api []) local_peer (small_settings\<lparr>thread_num := 2\<rparr>))\<^sup>+\<^sup>+
      (start_state (new_master\<lparr>worker_thread := two_workers\<rparr>) static_freelist idle_io) s \<and>
    dbs (sio s) = [sql_delete_user '''']"
proof -
  have "fresh_pool 2 (worker_thread (new_master\<lparr>worker_thread := two_workers\<rparr>))"
    by (simp add: fresh_pool_def two_workers_def new_thread_def)
  moreover have "sendable [''4'', ''x'', ''y'']" "length (request_text [''4'', ''x'', ''y''] @ CRLF) \<le> BUFSIZE"
    by code_simp+
  moreover have "run_command (recording_api []) local_peer 10 [''4'', ''x'', ''y''] idle_io =
      Inr (idle_io\<lparr>dbs := [sql_delete_user '''']\<rparr>)"
    by code_simp
  ultimately show ?thesis
    using server_serves_request [of 2 "new_master\<lparr>worker_thread := two_workers\<rparr>" "small_settings\<lparr>thread_num := 2\<rparr>" 10
        "[''4'', ''x'', ''y'']" "recording_api []" local_peer idle_io]
    by fastforce
qed



end
