(* ===== verification/Reload.thy ===== *)
theory Reload
  imports Server
begin

section \<open>RRMode.cpp: a reload while the server runs\<close>

text \<open>
  SIGUSR1 reads the configuration again and overwrites the settings that the running callbacks
  use: the time-out of new connections, and the number of workers by which the dispatcher
  divides, while the pool of workers stays as it was made.  A step of \<open>running_step\<close> is a
  callback of the server under the settings of the moment, or the signal handler as a whole
  between two callbacks.
\<close>

record 'db running =
  server :: "'db server"
  proc :: process

inductive running_step ::
  "'db mysql_api \<Rightarrow> (int \<Rightarrow> in_addr) \<Rightarrow> path_env \<Rightarrow> 'db running \<Rightarrow> 'db running \<Rightarrow> bool"
  for api peer env where
  callback: "server_step api peer (settings (proc s)) (server s) t \<Longrightarrow>
    running_step api peer env s (s\<lparr>server := t\<rparr>)"
| reload: "SigUsr env SIGUSR1 (proc s) = Inr (Inr p) \<Longrightarrow> running_step api peer env s (s\<lparr>proc := p\<rparr>)"

inductive_cases running_stepE: "running_step api peer env s s'"

subsection \<open>What does not depend on the settings\<close>

definition conns_inv :: "nat \<Rightarrow> 'db server \<Rightarrow> bool" where
  "conns_inv k s \<longleftrightarrow> store_inv (conns s) \<and> owned (conns s) \<and> length (vec_libevent_thread (worker_thread (master s))) = k"

lemma Dispatch_length: "DispatchSfdToWorker n wrote fd w = Inr w' \<Longrightarrow> length (vec_libevent_thread w') = length (vec_libevent_thread w)"
  by (auto simp: DispatchSfdToWorker_def Let_def split: if_splits)

lemma AccepCb_length:
  "AccepCb env n m = Inr m' \<Longrightarrow>
     length (vec_libevent_thread (worker_thread m')) = length (vec_libevent_thread (worker_thread m))"
  by (auto simp: AccepCb_def Let_def dest: Dispatch_length split: if_splits)

lemma read_notify_length: "length (vec_libevent_thread (snd (read_notify tid w))) = length (vec_libevent_thread w)"
  by (auto simp: read_notify_def Let_def split: prod.splits)

lemma ReadPipeCb_conns:
  assumes "ReadPipeCb env tid (w, st) = Inr (w', st')" and "store_inv st" and "owned st" and "fresh_env env st"
  shows "store_inv st' \<and> owned st' \<and> length (vec_libevent_thread w') = length (vec_libevent_thread w)"
proof -
  have "store_inv st' \<and> owned st'"
    using assms InitNewConn_result [OF assms(2,4)]
    by (fastforce simp: ReadPipeCb_def split: prod.splits option.splits if_splits)
  then show ?thesis using ReadPipeCb_workers [OF assms(1)] read_notify_length [of tid w] by simp
qed

lemma server_step_conns:
  assumes "server_step api peer g s s'" and "conns_inv k s"
  shows "conns_inv k s'"
  using assms(1)
proof cases
  case (accept env m)
  then show ?thesis using AccepCb_length [OF accept(2)] assms(2) by (simp add: conns_inv_def)
next
  case (notify tid env w st)
  with ReadPipeCb_conns [OF notify(5)] assms(2) show ?thesis by (simp add: conns_inv_def)
next
  case (data bev x chunk st r)
  with start_routine_inv [OF data(4) data(2) refl] assms(2) show ?thesis by (simp add: conns_inv_def)
next
  case (event bev x ev st)
  then have close: "CloseConn (cbarg x) bev (conns s) = Inr st" by (simp add: ClientTcpErrorCb_def)
  have inv: "store_inv (conns s)" "owned (conns s)" using assms(2) by (simp_all add: conns_inv_def)
  with event CloseConn_result [OF inv(1) event(2) refl close] CloseConn_owned [OF inv(1) event(2) refl close inv(2)]
    assms(2) show ?thesis by (simp add: conns_inv_def)
qed

interpretation run: invariant_steps "running_step api peer env" "\<lambda>s. conns_inv k (server s)" for api peer env k
  by unfold_locales (auto elim!: running_stepE intro: server_step_conns)

definition running_start :: "CMasterThread \<Rightarrow> freelist \<Rightarrow> 'db io \<Rightarrow> process \<Rightarrow> 'db running" where
  "running_start m fl r p = \<lparr>server = start_state m fl r, proc = p\<rparr>"

lemma conns_inv_start: "fresh_pool k (worker_thread m) \<Longrightarrow> conns_inv k (start_state m fl r)"
  using server_inv_start [of k m fl r]
  by (auto simp: conns_inv_def server_inv_def fresh_pool_def start_state_def)

text \<open>
  Reloads between the callbacks, whatever the file says, cannot make two live connections
  share an object, nor put a live one into the pool, nor lose one; and the pool of workers
  keeps the size it was made with, whatever number of workers the settings have by now.
\<close>

theorem reload_connections_safe:
  assumes "fresh_pool k (worker_thread m)" and "(running_step api peer env)\<^sup>*\<^sup>* (running_start m fl r p) s"
  shows "inj_on (\<lambda>b. cbarg (the (live (conns (server s)) b))) (dom (live (conns (server s)))) \<and>
    distinct (pool_stack (pool (conns (server s)))) \<and>
    (\<forall>b x. live (conns (server s)) b = Some x \<longrightarrow> cbarg x \<notin> set (pool_stack (pool (conns (server s))))) \<and>
    dom (heap (conns (server s))) =
      set (pool_stack (pool (conns (server s)))) \<union> cbarg ` ran (live (conns (server s))) \<and>
    length (vec_libevent_thread (worker_thread (master (server s)))) = k"
proof -
  have "conns_inv k (server (running_start m fl r p))"
    using conns_inv_start [OF assms(1)] by (simp add: running_start_def)
  from run.inv_reaches [OF assms(2) this]
  have inv: "store_inv (conns (server s))" "owned (conns (server s))"
    and len: "length (vec_libevent_thread (worker_thread (master (server s)))) = k"
    by (simp_all add: conns_inv_def)
  have "inj_on (\<lambda>b. cbarg (the (live (conns (server s)) b))) (dom (live (conns (server s))))"
    using inv(1) unfolding store_inv_def inj_on_def by auto
  then show ?thesis using inv len unfolding store_inv_def owned_def by blast
qed

lemma reload_to_four:
  "SigUsr \<lparr>cwd = Some ''/srv'', files = \<lambda>f. Some []\<rparr> SIGUSR1 (demo_process\<lparr>settings := small_settings\<lparr>thread_num := 2\<rparr>\<rparr>) =
     Inr (Inr demo_process)"
  using settings_defaults [of "demo_process\<lparr>settings := small_settings\<lparr>thread_num := 2\<rparr>\<rparr>"
      "\<lparr>cwd = Some ''/srv'', files = \<lambda>f. Some []\<rparr>" "''/srv''"]
  by (simp add: demo_process_def SigUsr_def)

text \<open>A connection is accepted for the first of two workers, then the settings are read again.\<close>

theorem reload_connections_safe_witness:
  "\<exists>s. (running_step (recording_api []) local_peer \<lparr>cwd = Some ''/srv'', files = \<lambda>f. Some []\<rparr>)\<^sup>+\<^sup>+
      (running_start (new_master\<lparr>worker_thread := two_workers\<rparr>) static_freelist idle_io
        (demo_process\<lparr>settings := small_settings\<lparr>thread_num := 2\<rparr>\<rparr>)) s \<and>
    thread_num (settings (proc s)) = 4 \<and>
    length (vec_libevent_thread (worker_thread (master (server s)))) = 2"
proof -
  let ?env = "\<lparr>cwd = Some ''/srv'', files = \<lambda>f. Some []\<rparr>"
  let ?m = "new_master\<lparr>worker_thread := two_workers\<rparr>"
  let ?p = "demo_process\<lparr>settings := small_settings\<lparr>thread_num := 2\<rparr>\<rparr>"
  let ?s = "running_start ?m static_freelist idle_io ?p"
  let ?step = "running_step (recording_api []) local_peer ?env"
  let ?acc = "\<lparr>accepted_fd = 10, getfl = 2, setfl = \<lambda>_. 0, notify_wrote = True\<rparr>"
  obtain m' where "AccepCb ?acc (thread_num (settings (proc ?s))) (master (server ?s)) = Inr m'"
    using accept_ten by (auto simp: running_start_def start_state_def)
  from running_step.callback [OF server_step.accept [OF this]]
  have "?step ?s (?s\<lparr>server := (server ?s)\<lparr>master := m'\<rparr>\<rparr>)" .
  moreover have "?step (?s\<lparr>server := (server ?s)\<lparr>master := m'\<rparr>\<rparr>)
      (?s\<lparr>server := (server ?s)\<lparr>master := m'\<rparr>\<rparr>\<lparr>proc := demo_process\<rparr>)"
    using reload_to_four by (intro running_step.reload) (simp add: running_start_def)
  ultimately have run: "?step\<^sup>+\<^sup>+ ?s (?s\<lparr>server := (server ?s)\<lparr>master := m'\<rparr>\<rparr>\<lparr>proc := demo_process\<rparr>)"
    by (meson tranclp.intros)
  have "fresh_pool 2 (worker_thread ?m)" by (simp add: fresh_pool_def two_workers_def new_thread_def)
  from reload_connections_safe [OF this tranclp_into_rtranclp [OF run]] run show ?thesis
    by (auto simp: demo_process_def)
qed

subsection \<open>A reload to fewer workers\<close>

lemma Dispatch_fewer:
  assumes "length (vec_libevent_thread w) = k" and "- 1 \<le> last_thread w" and "last_thread w < int k"
    and "0 < unat n" and "unat n \<le> k" and "int k \<le> INT_MAX"
  shows "\<exists>w'. DispatchSfdToWorker n wrote fd w = Inr w' \<and> length (vec_libevent_thread w') = k \<and>
    - 1 \<le> last_thread w' \<and> last_thread w' < int k \<and>
    (\<forall>i. unat n \<le> i \<longrightarrow> vec_libevent_thread w' ! i = vec_libevent_thread w ! i)"
proof (cases "last_thread w = INT_MAX")
  case True
  then show ?thesis using assms by linarith
next
  case False
  define t where "t = (last_thread w + 1) mod int (unat n)"
  have idx: "sint ((word_of_int (last_thread w + 1) :: u32) mod n) = t"
    unfolding t_def using assms by (intro round_robin_index) linarith+
  have pos: "0 < int (unat n)" unfolding of_nat_0_less_iff by (fact assms(4))
  from pos_mod_sign [OF pos] pos_mod_bound [OF pos] have t: "0 \<le> t" "t < int (unat n)" unfolding t_def .
  moreover have "n \<noteq> 0" using assms(4) by auto
  moreover have "t < int k" using t(2) assms(5) by linarith
  moreover have "nat t \<noteq> i" if "unat n \<le> i" for i using t that by linarith
  ultimately show ?thesis
    using assms(1) False unfolding DispatchSfdToWorker_def Let_def idx by auto
qed

text \<open>
  After a reload to a smaller positive number of workers every dispatch still returns, but
  the workers with the higher numbers never get a connection again, however many arrive: their
  queues and pipes stay as they were.
\<close>

theorem reload_fewer_workers:
  assumes "length (vec_libevent_thread w) = k" and "- 1 \<le> last_thread w" and "last_thread w < int k"
    and "0 < unat n" and "unat n \<le> k" and "int k \<le> INT_MAX"
  shows "\<exists>w'. dispatch_all n xs w = Inr w' \<and>
    (\<forall>i. unat n \<le> i \<longrightarrow> vec_libevent_thread w' ! i = vec_libevent_thread w ! i)"
  using assms(1-3)
proof (induction xs arbitrary: w)
  case Nil
  then show ?case by simp
next
  case (Cons x xs)
  obtain fd wrote where x: "x = (fd, wrote)" by fastforce
  from Dispatch_fewer [OF Cons.prems assms(4-6), of wrote fd]
  obtain w' where w': "DispatchSfdToWorker n wrote fd w = Inr w'" "length (vec_libevent_thread w') = k"
    "- 1 \<le> last_thread w'" "last_thread w' < int k"
    "\<forall>i. unat n \<le> i \<longrightarrow> vec_libevent_thread w' ! i = vec_libevent_thread w ! i" by blast
  from Cons.IH [OF w'(2-4)] w'(1,5) x show ?case by auto
qed

theorem reload_fewer_workers_witness:
  "\<exists>w'. dispatch_all 1 [(10, True), (11, True), (12, True)] two_workers = Inr w' \<and>
     vec_libevent_thread w' ! 1 = vec_libevent_thread two_workers ! 1"
proof -
  have two: "length (vec_libevent_thread two_workers) = 2" "- 1 \<le> last_thread two_workers"
    "last_thread two_workers < int 2" by (simp_all add: two_workers_def)
  have "0 < unat (1 :: u32)" "unat (1 :: u32) \<le> 2" "int 2 \<le> INT_MAX" by (simp_all add: INT_MAX_def)
  from reload_fewer_workers [OF two this, of "[(10, True), (11, True), (12, True)]"] show ?thesis
    unfolding unat_1 by blast
qed

end
