(* ===== verification/Threads.thy ===== *)
theory Threads
  imports CommandHandler
begin

section \<open>worker_threads.cc: the workers under the static mutex\<close>

text \<open>
  All workers use one MySQL handle and one pool of connection objects.  The code guards both
  with the static member \<open>mutex_\<close>: every case of the switch of \<open>start_routine\<close> holds it from its
  \<open>scoped_lock\<close> to the end of its block, over the calls of the MySQL library and over
  \<open>WriteSfd\<close>; \<open>GetConnFromFreelist\<close> and \<open>AddConnToFreelist\<close> hold it for their whole body.  The
  replies to unknown commands and malformed messages are sent without it.

  Here a critical section is a value of type \<open>act\<close>, the calls that the code makes one after
  the other, each of them a step of its thread; the steps of the other threads come in
  between as the scheduler likes.  \<open>boost::mutex\<close> is the field \<open>lock\<close>, the number of the thread
  that holds it.  What a thread sends and takes from the pool is its list of events.  A job
  of a thread is one request, or one call of a pool operation.  A fault is undefined
  behaviour, so no step of the thread is described after it.
\<close>

record 'db shared =
  sdb :: 'db
  spool :: freelist

datatype event = Sent int string | Took "addr option" | Gave bool

datatype 's act = Done | Crash fault | Step "'s \<Rightarrow> 's act \<times> 's" | Emit event "'s act"

datatype job = Request int "string list" | Take | Give addr

subsection \<open>The critical sections, call by call\<close>

definition act_check :: "'a outcome \<Rightarrow> ('a \<Rightarrow> 's act) \<Rightarrow> 's act" where
  "act_check r k = (case r of Inl f \<Rightarrow> Crash f | Inr x \<Rightarrow> k x)"

definition act_query :: "'db mysql_api \<Rightarrow> string \<Rightarrow> (int \<Rightarrow> 'db shared act) \<Rightarrow> 'db shared act" where
  "act_query api sql k = Step (\<lambda>s. case mysql_query api sql (sdb s) of (rc, db) \<Rightarrow> (k rc, s\<lparr>sdb := db\<rparr>))"

definition act_store ::
  "'db mysql_api \<Rightarrow> (string option list list option \<Rightarrow> 'db shared act) \<Rightarrow> 'db shared act" where
  "act_store api k = Step (\<lambda>s. case mysql_store_result api (sdb s) of (res, db) \<Rightarrow> (k res, s\<lparr>sdb := db\<rparr>))"

definition act_SelectData :: "'db mysql_api \<Rightarrow> string \<Rightarrow> nat \<Rightarrow> (string \<Rightarrow> 'db shared act) \<Rightarrow> 'db shared act" where
  "act_SelectData api SQL Cnum k =
     act_check (sprintf_buf 2048 (c_str SQL)) (\<lambda>sql.
       act_query api sql (\<lambda>rc.
         if rc \<noteq> 0 then k ''''
         else act_store api (\<lambda>res.
           case res of None \<Rightarrow> k '''' | Some rows \<Rightarrow> act_check (rows_text Cnum rows) k)))"

text \<open>\<open>InsertData\<close>, \<open>UpdateData\<close> and \<open>DeleteData\<close>: one statement, the result 0 or 1.\<close>

definition act_statement :: "'db mysql_api \<Rightarrow> string \<Rightarrow> (int \<Rightarrow> 'db shared act) \<Rightarrow> 'db shared act" where
  "act_statement api SQL k =
     act_check (sprintf_buf 2048 (c_str SQL)) (\<lambda>sql. act_query api sql (\<lambda>rc. k (if rc \<noteq> 0 then 1 else 0)))"

definition act_reply :: "int \<Rightarrow> string \<Rightarrow> 'db shared act" where
  "act_reply fd str = Emit (Sent fd (xor_text str)) Done"

definition act_INSERT ::
  "'db mysql_api \<Rightarrow> int \<Rightarrow> string \<Rightarrow> string \<Rightarrow> string \<Rightarrow> string \<Rightarrow> string \<Rightarrow> 'db shared act" where
  "act_INSERT api fd name passwd device_id p2p_id ip =
     (let finish = (\<lambda>sql. act_statement api sql (\<lambda>rc. act_reply fd (if rc = 0 then ''f0:ok'' else ''e2:fail'')))
      in if name \<noteq> ''0000'' \<and> device_id \<noteq> ''0000''
         then act_check (sprintf_buf BUFSIZE (sql_insert_device name device_id p2p_id ip)) finish
         else act_check (sprintf_buf BUFSIZE (sql_find_user name)) (\<lambda>sql.
              act_SelectData api sql 3 (\<lambda>strval.
                if length strval = 0
                then act_check (sprintf_buf BUFSIZE (sql_insert_user name passwd)) finish
                else act_reply fd ''e1:fail'')))"

definition act_SELECT :: "'db mysql_api \<Rightarrow> int \<Rightarrow> string \<Rightarrow> string \<Rightarrow> 'db shared act" where
  "act_SELECT api fd name passwd =
     act_check (sprintf_buf BUFSIZE (sql_select_user name)) (\<lambda>sql.
     act_SelectData api sql 3 (\<lambda>strval.
       if length strval \<noteq> 0
       then act_check (stored_passwd strval) (\<lambda>new_passwd.
              act_reply fd (if new_passwd \<noteq> c_str passwd then ''e3:fail'' else ''f0:ok''))
       else act_reply fd ''e1:fail''))"

definition act_UPDATE :: "'db mysql_api \<Rightarrow> int \<Rightarrow> string \<Rightarrow> string \<Rightarrow> 'db shared act" where
  "act_UPDATE api fd name passwd =
     act_check (sprintf_buf BUFSIZE (sql_update_user name passwd)) (\<lambda>sql.
     act_statement api sql (\<lambda>rc. act_reply fd (if rc = 0 then ''f0:ok'' else ''e3:fail'')))"

definition act_DELETE :: "'db mysql_api \<Rightarrow> 'db shared act" where
  "act_DELETE api =
     act_check (sprintf_buf BUFSIZE (sql_delete_user '''')) (\<lambda>sql. act_statement api sql (\<lambda>rc. Done))"

text \<open>The pool operations: in the first, the test of the counter and the access are two steps.\<close>

definition act_Get :: "'db shared act" where
  "act_Get = Step (\<lambda>s.
     (if freecurr (spool s) > 0
      then Step (\<lambda>s. let k = freecurr (spool s) - 1; fl = (spool s)\<lparr>freecurr := k\<rparr>
             in (act_check (vec_at (vec_freeconn fl) k) (\<lambda>conn. Emit (Took conn) Done), s\<lparr>spool := fl\<rparr>))
      else Emit (Took None) Done, s))"

definition act_Add :: "addr \<Rightarrow> 'db shared act" where
  "act_Add conn = Step (\<lambda>s.
     case AddConnToFreelist conn (spool s) of
       Inl f \<Rightarrow> (Crash f, s)
     | Inr (ok, fl) \<Rightarrow> (Emit (Gave ok) Done, s\<lparr>spool := fl\<rparr>))"

text \<open>The fields of a message, as the switch uses them; \<open>None\<close> when no lock is taken.\<close>

definition act_request ::
  "'db mysql_api \<Rightarrow> (int \<Rightarrow> in_addr) \<Rightarrow> int \<Rightarrow> string list \<Rightarrow> 'db shared act option" where
  "act_request api peer fd vec =
     (if length vec = 6 \<or> length vec = 3
      then let six = (length vec = 6);
               command = atoi (vec ! 0);
               name = vec ! 1;
               passwd = vec ! 2
           in if command = 1
              then Some (act_INSERT api fd name passwd (if six then vec ! 3 else '''') (if six then vec ! 4 else '''')
                           (if six then inet_ntoa (peer fd) else ''''))
              else if command = 2 then Some (act_SELECT api fd name passwd)
              else if command = 3 then Some (act_UPDATE api fd name passwd)
              else if command = 4 then Some (act_DELETE api)
              else None
      else None)"

fun act_of :: "'db mysql_api \<Rightarrow> (int \<Rightarrow> in_addr) \<Rightarrow> job \<Rightarrow> 'db shared act option" where
  "act_of api peer (Request fd vec) = act_request api peer fd vec"
| "act_of api peer Take = Some act_Get"
| "act_of api peer (Give a) = Some (act_Add a)"

text \<open>A job that takes no lock sends one text.\<close>

fun plain_reply :: "job \<Rightarrow> event list" where
  "plain_reply (Request fd vec) = [Sent fd (xor_text ''e3:fail'')]"
| "plain_reply _ = []"

subsection \<open>The threads\<close>

record 'db thread =
  todo :: "job list"
  cur :: "'db shared act option"
  events :: "event list"

record 'db machine =
  mem :: "'db shared"
  lock :: "nat option"
  thr :: "nat \<Rightarrow> 'db thread"

inductive thread_step ::
  "'db mysql_api \<Rightarrow> (int \<Rightarrow> in_addr) \<Rightarrow> nat \<Rightarrow> job option \<Rightarrow> 'db machine \<Rightarrow> 'db machine \<Rightarrow> bool"
  for api peer i where
  acquire: "lock m = None \<Longrightarrow> cur (thr m i) = None \<Longrightarrow> todo (thr m i) = j # js \<Longrightarrow> act_of api peer j = Some k \<Longrightarrow>
    thread_step api peer i (Some j) m
      (m\<lparr>lock := Some i, thr := (thr m)(i := (thr m i)\<lparr>todo := js, cur := Some k\<rparr>)\<rparr>)"
| plain: "cur (thr m i) = None \<Longrightarrow> todo (thr m i) = j # js \<Longrightarrow> act_of api peer j = None \<Longrightarrow>
    thread_step api peer i (Some j) m
      (m\<lparr>thr := (thr m)(i := (thr m i)\<lparr>todo := js, events := events (thr m i) @ plain_reply j\<rparr>)\<rparr>)"
| access: "cur (thr m i) = Some (Step g) \<Longrightarrow> g (mem m) = (k, s) \<Longrightarrow>
    thread_step api peer i None m (m\<lparr>mem := s, thr := (thr m)(i := (thr m i)\<lparr>cur := Some k\<rparr>)\<rparr>)"
| emit: "cur (thr m i) = Some (Emit e k) \<Longrightarrow>
    thread_step api peer i None m
      (m\<lparr>thr := (thr m)(i := (thr m i)\<lparr>cur := Some k, events := events (thr m i) @ [e]\<rparr>)\<rparr>)"
| release: "cur (thr m i) = Some Done \<Longrightarrow>
    thread_step api peer i None m (m\<lparr>lock := None, thr := (thr m)(i := (thr m i)\<lparr>cur := None\<rparr>)\<rparr>)"

inductive_cases thread_stepE: "thread_step api peer i l m m'"

text \<open>A run with its trace: which thread moved, and the job it began if it began one.\<close>

inductive thread_run ::
  "'db mysql_api \<Rightarrow> (int \<Rightarrow> in_addr) \<Rightarrow> 'db machine \<Rightarrow> (nat \<times> job option) list \<Rightarrow> 'db machine \<Rightarrow> bool"
  for api peer m where
  none: "thread_run api peer m [] m"
| more_steps: "thread_run api peer m tr m' \<Longrightarrow> thread_step api peer i l m' m'' \<Longrightarrow> thread_run api peer m (tr @ [(i, l)]) m''"

definition start_machine :: "'db shared \<Rightarrow> (nat \<Rightarrow> job list) \<Rightarrow> 'db machine" where
  "start_machine s todos = \<lparr>mem = s, lock = None, thr = (\<lambda>i. \<lparr>todo = todos i, cur = None, events = []\<rparr>)\<rparr>"

definition started_jobs :: "(nat \<times> job option) list \<Rightarrow> (nat \<times> job) list" where
  "started_jobs tr = concat (map (\<lambda>(i, l). case l of None \<Rightarrow> [] | Some j \<Rightarrow> [(i, j)]) tr)"

subsection \<open>The reference: one job after the other\<close>

primrec run_act :: "'s act \<Rightarrow> 's \<times> event list \<Rightarrow> ('s \<times> event list) outcome" where
  "run_act Done = Inr"
| "run_act (Crash f) = (\<lambda>_. Inl f)"
| "run_act (Step g) = (\<lambda>(s, es). case map_prod run_act id (g s) of (r, s') \<Rightarrow> r (s', es))"
| "run_act (Emit e k) = (\<lambda>(s, es). run_act k (s, es @ [e]))"

fun exec_job ::
  "'db mysql_api \<Rightarrow> (int \<Rightarrow> in_addr) \<Rightarrow> job \<Rightarrow> 'db shared \<times> event list \<Rightarrow> ('db shared \<times> event list) outcome" where
  "exec_job api peer (Request fd vec) (s, es) =
     bindE (run_command api peer fd vec \<lparr>dbs = sdb s, wire = []\<rparr>) (\<lambda>r.
       Inr (s\<lparr>sdb := dbs r\<rparr>, es @ map (\<lambda>(f, t). Sent f t) (wire r)))"
| "exec_job api peer Take (s, es) =
     bindE (GetConnFromFreelist (spool s)) (\<lambda>(conn, fl). Inr (s\<lparr>spool := fl\<rparr>, es @ [Took conn]))"
| "exec_job api peer (Give a) (s, es) =
     bindE (AddConnToFreelist a (spool s)) (\<lambda>(ok, fl). Inr (s\<lparr>spool := fl\<rparr>, es @ [Gave ok]))"

definition seq_job ::
  "'db mysql_api \<Rightarrow> (int \<Rightarrow> in_addr) \<Rightarrow> nat \<times> job \<Rightarrow> 'db shared \<times> (nat \<Rightarrow> event list) \<Rightarrow>
   ('db shared \<times> (nat \<Rightarrow> event list)) outcome" where
  "seq_job api peer x st =
     (case x of (i, j) \<Rightarrow> case st of (s, ev) \<Rightarrow>
        bindE (exec_job api peer j (s, ev i)) (\<lambda>(s', es). Inr (s', ev(i := es))))"

fun seq_run ::
  "'db mysql_api \<Rightarrow> (int \<Rightarrow> in_addr) \<Rightarrow> (nat \<times> job) list \<Rightarrow> 'db shared \<times> (nat \<Rightarrow> event list) \<Rightarrow>
   ('db shared \<times> (nat \<Rightarrow> event list)) outcome" where
  "seq_run api peer [] st = Inr st"
| "seq_run api peer (x # xs) st = bindE (seq_job api peer x st) (seq_run api peer xs)"

lemma seq_run_snoc: "seq_run api peer (xs @ [x]) st = bindE (seq_run api peer xs st) (seq_job api peer x)"
  by (induction xs arbitrary: st) (auto simp: bindE_def split: sum.splits)

end
