(* ===== verification/ThreadProps.thy ===== *)
theory ThreadProps
  imports Threads HandlerProps
begin

section \<open>Properties of the workers under the mutex\<close>

text \<open>
  The calls of a critical section, run without interruption, are the handler's reference
  definitions; the mutex makes every interleaving of the threads equal to a run of whole jobs
  in the order in which they began; and a thread that cannot go on inside its critical section
  keeps all others out of the database and the pool.
\<close>

subsection \<open>A critical section is the reference definition\<close>

lemma run_act_check [simp]: "run_act (act_check r k) x = bindE r (\<lambda>y. run_act (k y) x)"
  by (cases r) (simp_all add: act_check_def)

lemma run_act_query [simp]:
  "run_act (act_query api sql k) (s, es) =
     (case mysql_query api sql (sdb s) of (rc, db) \<Rightarrow> run_act (k rc) (s\<lparr>sdb := db\<rparr>, es))"
  by (simp add: act_query_def split: prod.splits)

lemma run_act_store [simp]:
  "run_act (act_store api k) (s, es) =
     (case mysql_store_result api (sdb s) of (res, db) \<Rightarrow> run_act (k res) (s\<lparr>sdb := db\<rparr>, es))"
  by (simp add: act_store_def split: prod.splits)

lemma run_act_reply [simp]: "run_act (act_reply fd str) (s, es) = Inr (s, es @ [Sent fd (xor_text str)])"
  by (simp add: act_reply_def)

lemma run_act_SelectData [simp]:
  "run_act (act_SelectData api SQL n k) (s, es) =
     bindE (SelectData api SQL n (sdb s)) (\<lambda>(str, db). run_act (k str) (s\<lparr>sdb := db\<rparr>, es))"
  by (auto simp: act_SelectData_def SelectData_def bindE_def split: sum.splits prod.splits option.splits)

lemma statement_eq:
  "InsertData api SQL db = UpdateData api SQL db" "DeleteData api SQL db = UpdateData api SQL db"
  by (auto simp: InsertData_def UpdateData_def DeleteData_def sprintf_buf_def bindE_def split: sum.splits)

lemma run_act_statement [simp]:
  "run_act (act_statement api SQL k) (s, es) =
     bindE (UpdateData api SQL (sdb s)) (\<lambda>(rc, db). run_act (k rc) (s\<lparr>sdb := db\<rparr>, es))"
  by (auto simp: act_statement_def UpdateData_def bindE_def split: sum.splits prod.splits)

text \<open>What an \<open>io\<close> computation does to the shared memory and the events of a thread.\<close>

definition as_events :: "'db shared \<Rightarrow> event list \<Rightarrow> 'db io outcome \<Rightarrow> ('db shared \<times> event list) outcome" where
  "as_events s es r = bindE r (\<lambda>io. Inr (s\<lparr>sdb := dbs io\<rparr>, es @ map (\<lambda>(f, t). Sent f t) (wire io)))"

lemma as_events_simps [simp]:
  "as_events s es (Inl f) = Inl f"
  "as_events s es (Inr io) = Inr (s\<lparr>sdb := dbs io\<rparr>, es @ map (\<lambda>(f, t). Sent f t) (wire io))"
  "as_events s es (bindE r k) = bindE r (\<lambda>x. as_events s es (k x))"
  by (simp_all add: as_events_def bindE_assoc)

lemma run_act_INSERT:
  "run_act (act_INSERT api fd name passwd dev p2p ip) (s, es) =
     as_events s es (case_INSERT api fd name passwd dev p2p ip \<lparr>dbs = sdb s, wire = []\<rparr>)"
  by (auto simp: act_INSERT_def case_INSERT_def insert_and_reply_def statement_eq Let_def reply_def bindE_def
      split: sum.splits prod.splits)

lemma run_act_SELECT:
  "run_act (act_SELECT api fd name passwd) (s, es) =
     as_events s es (case_SELECT api fd name passwd \<lparr>dbs = sdb s, wire = []\<rparr>)"
  by (auto simp: act_SELECT_def case_SELECT_def Let_def reply_def bindE_def split: sum.splits prod.splits)

lemma run_act_UPDATE:
  "run_act (act_UPDATE api fd name passwd) (s, es) =
     as_events s es (case_UPDATE api fd name passwd \<lparr>dbs = sdb s, wire = []\<rparr>)"
  by (auto simp: act_UPDATE_def case_UPDATE_def reply_def bindE_def split: sum.splits prod.splits)

lemma run_act_DELETE:
  "run_act (act_DELETE api) (s, es) = as_events s es (case_DELETE api \<lparr>dbs = sdb s, wire = []\<rparr>)"
  by (auto simp: act_DELETE_def case_DELETE_def statement_eq bindE_def split: sum.splits prod.splits)

lemmas run_act_cases = run_act_INSERT run_act_SELECT run_act_UPDATE run_act_DELETE

lemma run_act_request:
  "(case act_request api peer fd vec of
      Some k \<Rightarrow> run_act k (s, es)
    | None \<Rightarrow> Inr (s, es @ plain_reply (Request fd vec))) =
     as_events s es (run_command api peer fd vec \<lparr>dbs = sdb s, wire = []\<rparr>)"
  by (auto simp: act_request_def run_command_def run_act_cases case_default_def reply_def Let_def)

lemma run_act_Get: "run_act act_Get (s, es) = exec_job api peer Take (s, es)"
  by (auto simp: act_Get_def GetConnFromFreelist_def Let_def bindE_def split: sum.splits)

lemma run_act_Add: "run_act (act_Add a) (s, es) = exec_job api peer (Give a) (s, es)"
  by (auto simp: act_Add_def bindE_def split: sum.splits prod.splits)

lemma run_act_of:
  "(case act_of api peer j of Some k \<Rightarrow> run_act k x | None \<Rightarrow> Inr (fst x, snd x @ plain_reply j)) = exec_job api peer j x"
proof (cases x)
  case (Pair s es)
  show ?thesis
  proof (cases j)
    case (Request fd vec)
    have "exec_job api peer j x = as_events s es (run_command api peer fd vec \<lparr>dbs = sdb s, wire = []\<rparr>)"
      by (simp only: Pair Request exec_job.simps as_events_def)
    then show ?thesis
      by (simp only: Pair Request act_of.simps fst_conv snd_conv run_act_request [symmetric])
  qed (use Pair run_act_Get run_act_Add in simp_all)
qed

subsection \<open>Invariant and simulation\<close>

text \<open>A thread is inside a critical section exactly when it holds the mutex.\<close>

definition mutex_inv :: "'db machine \<Rightarrow> bool" where
  "mutex_inv m \<longleftrightarrow> (\<forall>i. cur (thr m i) = None \<longleftrightarrow> lock m \<noteq> Some i)"

text \<open>What the machine shows when the critical section that is open is brought to its end.\<close>

definition view :: "'db machine \<Rightarrow> 'db shared \<times> (nat \<Rightarrow> event list)" where
  "view m = (mem m, \<lambda>i. events (thr m i))"

definition finish :: "'db machine \<Rightarrow> ('db shared \<times> (nat \<Rightarrow> event list)) outcome" where
  "finish m =
     (case lock m of
        None \<Rightarrow> Inr (view m)
      | Some i \<Rightarrow> bindE (run_act (the (cur (thr m i))) (mem m, events (thr m i)))
                   (\<lambda>(s, es). Inr (s, (snd (view m))(i := es))))"

lemma mutex_inv_start: "mutex_inv (start_machine s todos)"
  by (simp add: mutex_inv_def start_machine_def)

lemma finish_start: "finish (start_machine s todos) = Inr (s, \<lambda>_. [])"
  by (simp add: finish_def start_machine_def view_def)

lemma mutex_holder: "mutex_inv m \<Longrightarrow> cur (thr m i) = Some k \<Longrightarrow> lock m = Some i"
  by (metis mutex_inv_def option.distinct(1))

lemma mutex_inv_step:
  assumes "mutex_inv m" and "thread_step api peer i l m m'"
  shows "mutex_inv m'"
proof -
  have inv: "cur (thr m k) = None \<longleftrightarrow> lock m \<noteq> Some k" for k using assms(1) by (simp add: mutex_inv_def)
  have "cur (thr m' k) = None \<longleftrightarrow> lock m' \<noteq> Some k" for k
    using assms(2) inv [of k] inv [of i] by (cases rule: thread_step.cases) (auto split: if_splits)
  then show ?thesis by (simp add: mutex_inv_def)
qed

text \<open>A step that begins a job runs it whole, as far as \<open>finish\<close> can tell; the others change nothing.\<close>

lemma finish_acquire:
  assumes "lock m = None" and "act_of api peer j = Some k"
  shows "finish (m\<lparr>lock := Some i, thr := (thr m)(i := (thr m i)\<lparr>todo := js, cur := Some k\<rparr>)\<rparr>) =
    bindE (finish m) (seq_job api peer (i, j))"
  using run_act_of [where api = api and peer = peer and j = j and x = "(mem m, events (thr m i))"] assms
  by (auto simp: finish_def seq_job_def view_def fun_eq_iff bindE_def split: sum.splits)

lemma finish_plain:
  assumes "mutex_inv m" and "cur (thr m i) = None" and "act_of api peer j = None"
  shows "finish (m\<lparr>thr := (thr m)(i := (thr m i)\<lparr>todo := js, events := events (thr m i) @ plain_reply j\<rparr>)\<rparr>) =
    bindE (finish m) (seq_job api peer (i, j))"
proof -
  have "lock m \<noteq> Some i" using assms(1,2) by (auto simp: mutex_inv_def)
  moreover have "exec_job api peer j (s, es) = Inr (s, es @ plain_reply j)" for s es
    using run_act_of [where api = api and peer = peer and j = j and x = "(s, es)"] assms(3) by simp
  ultimately show ?thesis
    by (auto simp: finish_def seq_job_def view_def fun_eq_iff bindE_def split: sum.splits option.splits)
qed

lemma finish_inside:
  assumes "mutex_inv m" and "cur (thr m i) = Some k"
  shows "finish m = bindE (run_act k (mem m, events (thr m i))) (\<lambda>(s, es). Inr (s, (snd (view m))(i := es)))"
  using mutex_holder [OF assms] assms(2) by (simp add: finish_def)

lemma finish_step:
  assumes "mutex_inv m" and "thread_step api peer i l m m'"
  shows "finish m' = (case l of None \<Rightarrow> finish m | Some j \<Rightarrow> bindE (finish m) (seq_job api peer (i, j)))"
  using assms(2)
proof cases
  case (acquire j js k)
  then show ?thesis using finish_acquire by simp
next
  case (plain j js)
  then show ?thesis using finish_plain [OF assms(1)] by simp
next
  case (access g k s)
  then show ?thesis
    using finish_inside [OF assms(1) access(3)] mutex_holder [OF assms(1) access(3)]
    by (auto simp: finish_def view_def fun_eq_iff bindE_def split: sum.splits)
next
  case (emit e k)
  then show ?thesis
    using finish_inside [OF assms(1) emit(3)] mutex_holder [OF assms(1) emit(3)]
    by (auto simp: finish_def view_def fun_eq_iff bindE_def split: sum.splits)
next
  case release
  then show ?thesis
    using finish_inside [OF assms(1) release(3)] mutex_holder [OF assms(1) release(3)]
    by (auto simp: finish_def view_def fun_eq_iff)
qed

lemma started_jobs_snoc [simp]:
  "started_jobs [] = []"
  "started_jobs [(i, l)] = (case l of None \<Rightarrow> [] | Some j \<Rightarrow> [(i, j)])"
  "started_jobs (tr @ [(i, l)]) = started_jobs tr @ (case l of None \<Rightarrow> [] | Some j \<Rightarrow> [(i, j)])"
  by (simp_all add: started_jobs_def)

lemma thread_run_inv: "thread_run api peer m tr m' \<Longrightarrow> mutex_inv m \<Longrightarrow> mutex_inv m'"
  by (induction rule: thread_run.induct) (auto intro: mutex_inv_step)

lemma thread_run_finish:
  "thread_run api peer m tr m' \<Longrightarrow> mutex_inv m \<Longrightarrow>
     finish m' = bindE (finish m) (seq_run api peer (started_jobs tr))"
proof (induction rule: thread_run.induct)
  case none
  then show ?case by (simp add: bindE_def split: sum.splits)
next
  case (more_steps tr m' i l m'')
  from thread_run_inv [OF more_steps.hyps(1) more_steps.prems] have "mutex_inv m'" .
  from finish_step [OF this more_steps.hyps(2)] more_steps show ?case
    by (auto simp: seq_run_snoc bindE_assoc split: option.splits)
qed

text \<open>The jobs a thread has begun, with those it has still to do, are its jobs in order.\<close>

definition jobs_of :: "nat \<Rightarrow> (nat \<times> job) list \<Rightarrow> job list" where
  "jobs_of i log = map snd (filter (\<lambda>x. fst x = i) log)"

lemma jobs_of_simps [simp]:
  "jobs_of i [] = []" "jobs_of i (log @ [(k, j)]) = jobs_of i log @ (if k = i then [j] else [])"
  by (simp_all add: jobs_of_def)

lemma thread_run_todo:
  "thread_run api peer m tr m' \<Longrightarrow> jobs_of i (started_jobs tr) @ todo (thr m' i) = todo (thr m i)"
proof (induction rule: thread_run.induct)
  case none
  then show ?case by simp
next
  case (more_steps tr m' k l m'')
  from more_steps.hyps(2) more_steps.IH show ?case
    by (auto elim!: thread_stepE split: if_splits)
qed

subsection \<open>Undisturbed runs\<close>

lemma thread_run_append: "thread_run api peer m' tr' m'' \<Longrightarrow> thread_run api peer m tr m' \<Longrightarrow> thread_run api peer m (tr @ tr') m''"
proof (induction rule: thread_run.induct)
  case none
  then show ?case by simp
next
  case (more_steps tr' m1 i l m2)
  from thread_run.more_steps [OF more_steps.IH [OF more_steps.prems] more_steps.hyps(2)] show ?case by simp
qed

lemma thread_run_one: "thread_step api peer i l m m' \<Longrightarrow> thread_run api peer m [(i, l)] m'"
  using thread_run.more_steps [OF thread_run.none] by fastforce

lemma started_jobs_append [simp]: "started_jobs (tr @ tr') = started_jobs tr @ started_jobs tr'"
  by (simp add: started_jobs_def)

text \<open>A critical section that its thread runs without a break ends as \<open>run_act\<close> says.\<close>

lemma run_section:
  "cur (thr m i) = Some k \<Longrightarrow> run_act k (mem m, events (thr m i)) = Inr (s, es) \<Longrightarrow>
     \<exists>tr m'. thread_run api peer m tr m' \<and> started_jobs tr = [] \<and> lock m' = None \<and> mem m' = s \<and>
       thr m' = (thr m)(i := (thr m i)\<lparr>cur := None, events := es\<rparr>)"
proof (induction k arbitrary: m)
  case Done
  from thread_run_one [OF thread_step.release [where api = api and peer = peer, OF Done(1)]] Done(2)
  show ?case by (intro exI conjI) (assumption, auto simp: started_jobs_def)
next
  case (Crash f)
  then show ?case by simp
next
  case (Step g)
  obtain k s1 where g: "g (mem m) = (k, s1)" by fastforce
  let ?m = "m\<lparr>mem := s1, thr := (thr m)(i := (thr m i)\<lparr>cur := Some k\<rparr>)\<rparr>"
  have "\<exists>tr m'. thread_run api peer ?m tr m' \<and> started_jobs tr = [] \<and> lock m' = None \<and> mem m' = s \<and>
       thr m' = (thr ?m)(i := (thr ?m i)\<lparr>cur := None, events := es\<rparr>)"
  proof (rule Step.IH [of "(k, s1)" k])
    show "(k, s1) \<in> range g" using g by (metis rangeI)
  qed (use Step.prems(2) g in \<open>simp_all add: fsts.simps\<close>)
  then obtain tr m' where *: "thread_run api peer ?m tr m'" "started_jobs tr = []" "lock m' = None" "mem m' = s"
    "thr m' = (thr m)(i := (thr m i)\<lparr>cur := None, events := es\<rparr>)" by auto
  from thread_run_append [OF *(1) thread_run_one [OF thread_step.access [OF Step.prems(1) g]]] *(2-)
  show ?case by (intro exI conjI) (assumption, auto simp: started_jobs_def)
next
  case (Emit e k)
  let ?m = "m\<lparr>thr := (thr m)(i := (thr m i)\<lparr>cur := Some k, events := events (thr m i) @ [e]\<rparr>)\<rparr>"
  have "\<exists>tr m'. thread_run api peer ?m tr m' \<and> started_jobs tr = [] \<and> lock m' = None \<and> mem m' = s \<and>
       thr m' = (thr ?m)(i := (thr ?m i)\<lparr>cur := None, events := es\<rparr>)"
    by (rule Emit.IH) (use Emit.prems(2) in simp_all)
  then obtain tr m' where *: "thread_run api peer ?m tr m'" "started_jobs tr = []" "lock m' = None" "mem m' = s"
    "thr m' = (thr m)(i := (thr m i)\<lparr>cur := None, events := es\<rparr>)" by auto
  from thread_run_append [OF *(1) thread_run_one [OF thread_step.emit [OF Emit.prems(1)]]] *(2-)
  show ?case by (intro exI conjI) (assumption, auto simp: started_jobs_def)
qed

text \<open>A whole job, from a free mutex to a free mutex.\<close>

lemma run_job:
  assumes "mutex_inv m" and "lock m = None" and "todo (thr m i) = j # js" and "seq_job api peer (i, j) (view m) = Inr v"
  shows "\<exists>tr m'. thread_run api peer m tr m' \<and> started_jobs tr = [(i, j)] \<and> lock m' = None \<and> view m' = v"
proof -
  have idle: "cur (thr m i) = None" using assms(1,2) by (simp add: mutex_inv_def)
  obtain s es where ex: "exec_job api peer j (mem m, events (thr m i)) = Inr (s, es)"
    and v: "v = (s, (snd (view m))(i := es))"
    using assms(4) by (auto simp: seq_job_def view_def)
  note step = run_act_of [where api = api and peer = peer and j = j and x = "(mem m, events (thr m i))", unfolded ex]
  show ?thesis
  proof (cases "act_of api peer j")
    case None
    from thread_run_one [OF thread_step.plain [OF idle assms(3) None]] step None v show ?thesis
      by (intro exI conjI) (assumption, auto simp: started_jobs_def assms(2) view_def fun_eq_iff)
  next
    case (Some k)
    let ?m = "m\<lparr>lock := Some i, thr := (thr m)(i := (thr m i)\<lparr>todo := js, cur := Some k\<rparr>)\<rparr>"
    have "run_act k (mem ?m, events (thr ?m i)) = Inr (s, es)" using step Some by simp
    from run_section [OF _ this, of api peer] obtain tr m' where *: "thread_run api peer ?m tr m'" "started_jobs tr = []"
      "lock m' = None" "mem m' = s" "thr m' = (thr ?m)(i := (thr ?m i)\<lparr>cur := None, events := es\<rparr>)" by auto
    from thread_run_append [OF *(1) thread_run_one [OF thread_step.acquire [OF assms(2) idle assms(3) Some]]] *(2-) v
    show ?thesis by (intro exI conjI) (assumption, auto simp: started_jobs_def view_def fun_eq_iff)
  qed
qed

lemma jobs_in_order:
  "seq_run api peer log (s, \<lambda>_. []) = Inr v \<Longrightarrow> \<forall>i. prefix (jobs_of i log) (todos i) \<Longrightarrow>
     \<exists>tr m. thread_run api peer (start_machine s todos) tr m \<and> lock m = None \<and> started_jobs tr = log \<and> view m = v"
proof (induction log arbitrary: v rule: rev_induct)
  case Nil
  have "thread_run api peer (start_machine s todos) [] (start_machine s todos)" by (rule thread_run.none)
  with Nil show ?case by (intro exI conjI) (assumption, auto simp: start_machine_def view_def)
next
  case (snoc x log)
  obtain i j where x: "x = (i, j)" by fastforce
  from snoc.prems(1) obtain v1 where v1: "seq_run api peer log (s, \<lambda>_. []) = Inr v1" "seq_job api peer (i, j) v1 = Inr v"
    by (auto simp: seq_run_snoc x)
  have "\<forall>k. prefix (jobs_of k log) (todos k)"
    using snoc.prems(2) by (auto simp: x dest: append_prefixD split: if_splits)
  from snoc.IH [OF v1(1) this] obtain tr m where m: "thread_run api peer (start_machine s todos) tr m" "lock m = None"
    "started_jobs tr = log" "view m = v1" by blast
  have "jobs_of i log @ todo (thr m i) = todos i"
    using thread_run_todo [OF m(1), of i] m(3) by (simp add: start_machine_def)
  moreover have "prefix (jobs_of i log @ [j]) (todos i)" using snoc.prems(2) [rule_format, of i] x by simp
  then obtain js where "todos i = jobs_of i log @ j # js" by (auto simp: prefix_def)
  ultimately have "todo (thr m i) = j # js" by simp
  from run_job [OF thread_run_inv [OF m(1) mutex_inv_start] m(2) this] v1(2) m(4)
  obtain tr' m' where "thread_run api peer m tr' m'" "started_jobs tr' = [(i, j)]" "lock m' = None" "view m' = v" by blast
  with thread_run_append [OF this(1) m(1)] m(3) x show ?case by (intro exI conjI) (assumption, auto)
qed

subsection \<open>A holder that does not move\<close>

lemma stalled_run:
  "thread_run api peer m tr m' \<Longrightarrow> mutex_inv m \<Longrightarrow> lock m = Some i \<Longrightarrow> i \<notin> fst ` set tr \<Longrightarrow>
     mem m' = mem m \<and> lock m' = Some i \<and> (\<forall>(k, j)\<in>set (started_jobs tr). act_of api peer j = None)"
proof (induction rule: thread_run.induct)
  case none
  then show ?case by simp
next
  case (more_steps tr m1 k l m2)
  then have m1: "mem m1 = mem m" "lock m1 = Some i" "k \<noteq> i"
    and old: "\<forall>(k, j)\<in>set (started_jobs tr). act_of api peer j = None" by auto
  from thread_run_inv [OF more_steps.hyps(1) more_steps.prems(1)] have "mutex_inv m1" .
  then have "cur (thr m1 k) = None" using m1(2,3) by (simp add: mutex_inv_def)
  with more_steps.hyps(2) m1 have "mem m2 = mem m1" "lock m2 = lock m1" "l = Some j \<Longrightarrow> act_of api peer j = None" for j
    by (auto elim!: thread_stepE)
  then show ?case using m1 old by (auto split: option.splits)
qed

subsection \<open>Properties\<close>


text \<open>
  C6. The mutex makes the workers' jobs atomic.  What the threads can reach together, with
  any interleaving of their calls, is exactly what running whole jobs one after the other
  gives, in the order in which they began, provided that the jobs of each thread are taken in
  its own order: the same database, the same pool and, for every thread, the same replies.
\<close>

theorem threads_equiv_sequential:
  "(\<exists>tr m. thread_run api peer (start_machine s todos) tr m \<and> lock m = None \<and> started_jobs tr = log \<and>
      mem m = s' \<and> (\<lambda>i. events (thr m i)) = ev) \<longleftrightarrow>
   (seq_run api peer log (s, \<lambda>_. []) = Inr (s', ev) \<and> (\<forall>i. prefix (jobs_of i log) (todos i)))"
proof
  assume "\<exists>tr m. thread_run api peer (start_machine s todos) tr m \<and> lock m = None \<and> started_jobs tr = log \<and>
    mem m = s' \<and> (\<lambda>i. events (thr m i)) = ev"
  then obtain tr m where m: "thread_run api peer (start_machine s todos) tr m" "lock m = None" "started_jobs tr = log"
    "view m = (s', ev)" by (auto simp: view_def)
  have "jobs_of i log @ todo (thr m i) = todos i" for i
    using thread_run_todo [OF m(1), of i] m(3) by (simp add: start_machine_def)
  then have "\<forall>i. prefix (jobs_of i log) (todos i)" by (metis prefixI)
  moreover have "finish m = Inr (s', ev)" using m(2,4) by (simp add: finish_def)
  ultimately show "seq_run api peer log (s, \<lambda>_. []) = Inr (s', ev) \<and> (\<forall>i. prefix (jobs_of i log) (todos i))"
    using thread_run_finish [OF m(1) mutex_inv_start] m(3) by (simp add: finish_start)
next
  assume "seq_run api peer log (s, \<lambda>_. []) = Inr (s', ev) \<and> (\<forall>i. prefix (jobs_of i log) (todos i))"
  with jobs_in_order [of api peer log s "(s', ev)" todos]
  show "\<exists>tr m. thread_run api peer (start_machine s todos) tr m \<and> lock m = None \<and> started_jobs tr = log \<and>
    mem m = s' \<and> (\<lambda>i. events (thr m i)) = ev" by (auto simp: view_def)
qed

text \<open>
  To whom a job answers, one entry for each answer, and to whom an event goes: \<open>None\<close> is the
  thread itself, which gets the result of a pool operation.
\<close>

fun destinations :: "job \<Rightarrow> int option list" where
  "destinations (Request fd vec) = (if is_delete vec then [] else [Some fd])"
| "destinations Take = [None]"
| "destinations (Give a) = [None]"

fun destination :: "event \<Rightarrow> int option" where
  "destination (Sent fd t) = Some fd"
| "destination (Took c) = None"
| "destination (Gave ok) = None"

definition status_event :: "event \<Rightarrow> bool" where
  "status_event e \<longleftrightarrow> (case e of Sent fd t \<Rightarrow> t \<in> xor_text ` set reply_texts | _ \<Rightarrow> True)"

lemma exec_job_answers:
  assumes "exec_job api peer j (s, es) = Inr (s', es')"
  shows "\<exists>new. es' = es @ new \<and> map destination new = destinations j \<and> list_all status_event new"
proof (cases j)
  case (Request fd vec)
  then obtain r where r: "run_command api peer fd vec \<lparr>dbs = sdb s, wire = []\<rparr> = Inr r"
    "es' = es @ map (\<lambda>(f, t). Sent f t) (wire r)" using assms by auto
  from run_command_replies [OF r(1)] r(2) Request show ?thesis
    by (auto simp: replied_def status_event_def split: if_splits)
qed (use assms in \<open>auto simp: status_event_def\<close>)

lemma seq_run_answers:
  "seq_run api peer log (s, \<lambda>_. []) = Inr (s', ev) \<Longrightarrow>
     map destination (ev i) = concat (map destinations (jobs_of i log)) \<and> list_all status_event (ev i)"
proof (induction log arbitrary: s' ev rule: rev_induct)
  case Nil
  then show ?case by auto
next
  case (snoc x log)
  obtain k j where x: "x = (k, j)" by fastforce
  from snoc.prems obtain s1 ev1 es where 1: "seq_run api peer log (s, \<lambda>_. []) = Inr (s1, ev1)"
    "exec_job api peer j (s1, ev1 k) = Inr (s', es)" "ev = ev1(k := es)"
    by (auto simp: seq_run_snoc x seq_job_def)
  from snoc.IH [OF 1(1)] exec_job_answers [OF 1(2)] 1(3) x show ?case by auto
qed


text \<open>
  Never two threads are inside a critical section, and the threads do not block each
  other for ever: in every reachable state in which some thread has work left, some thread
  can move, unless the one inside the critical section has run into undefined behaviour.
\<close>

theorem threads_exclusive:
  assumes "thread_run api peer (start_machine s todos) tr m"
  shows "(cur (thr m i) \<noteq> None \<and> cur (thr m j) \<noteq> None \<longrightarrow> i = j) \<and>
    (todo (thr m i) \<noteq> [] \<or> cur (thr m i) \<noteq> None \<longrightarrow>
       (\<exists>k l m'. thread_step api peer k l m m') \<or> (\<exists>k f. cur (thr m k) = Some (Crash f)))"
proof -
  have inv: "mutex_inv m" by (rule thread_run_inv [OF assms mutex_inv_start])
  have inside: "(\<exists>k l m'. thread_step api peer k l m m') \<or> (\<exists>k f. cur (thr m k) = Some (Crash f))"
    if "cur (thr m k) = Some a" for k a
  proof (cases a)
    case (Step g)
    then show ?thesis using that by (cases "g (mem m)") (blast intro: thread_step.access)
  qed (use that in \<open>blast intro: thread_step.release thread_step.emit\<close>)+
  have begins: "(\<exists>k l m'. thread_step api peer k l m m') \<or> (\<exists>k f. cur (thr m k) = Some (Crash f))"
    if work: "todo (thr m i) \<noteq> []"
  proof (cases "lock m")
    case None
    obtain x xs where todo: "todo (thr m i) = x # xs" using work by (cases "todo (thr m i)") auto
    have idle: "cur (thr m i) = None" using inv None by (simp add: mutex_inv_def)
    show ?thesis
      using thread_step.acquire [OF None idle todo] thread_step.plain [OF idle todo] by (cases "act_of api peer x") blast+
  next
    case (Some k)
    then obtain a where "cur (thr m k) = Some a" using inv by (auto simp: mutex_inv_def)
    then show ?thesis by (rule inside)
  qed
  have "i = j" if "cur (thr m i) \<noteq> None" "cur (thr m j) \<noteq> None"
    using inv that unfolding mutex_inv_def by (metis option.inject)
  then show ?thesis using inside begins by blast
qed

definition demo_todos :: "nat \<Rightarrow> job list" where
  "demo_todos i = (if i = 0 then [Request 3 [''3'', ''bob'', ''pw'']] else if i = 1 then [Request 4 [''9''], Take] else [])"

definition demo_mem :: "string list shared" where
  "demo_mem = \<lparr>sdb = [], spool = InitFreeConns static_freelist\<rparr>"

text \<open>Thread 0 has sent its statement and is about to reply.\<close>

definition replying :: "string list machine" where
  "replying = \<lparr>mem = demo_mem\<lparr>sdb := [sql_update_user ''bob'' ''pw'']\<rparr>, lock = Some 0,
     thr = (\<lambda>i. \<lparr>todo = demo_todos i, cur = None, events = []\<rparr>)
       (0 := \<lparr>todo = [], cur = Some (Emit (Sent 3 (xor_text ''f0:ok'')) Done), events = []\<rparr>)\<rparr>"

lemma demo_update:
  "act_of (recording_api []) local_peer (Request 3 [''3'', ''bob'', ''pw'']) =
     Some (Step (\<lambda>s. (Emit (Sent 3 (xor_text ''f0:ok'')) Done, s\<lparr>sdb := sdb s @ [sql_update_user ''bob'' ''pw'']\<rparr>)))"
proof -
  have "atoi ''3'' = 3" "sprintf_buf BUFSIZE (sql_update_user ''bob'' ''pw'') = Inr (sql_update_user ''bob'' ''pw'')"
    "sprintf_buf 2048 (c_str (sql_update_user ''bob'' ''pw'')) = Inr (sql_update_user ''bob'' ''pw'')"
    by code_simp+
  then show ?thesis
    by (simp add: act_request_def act_UPDATE_def act_check_def act_statement_def act_query_def act_reply_def recording_api_def)
qed

lemma replying_run:
  "thread_run (recording_api []) local_peer (start_machine demo_mem demo_todos)
     [(0, Some (Request 3 [''3'', ''bob'', ''pw''])), (0, None)] replying"
proof -
  let ?m0 = "start_machine demo_mem demo_todos"
  note acq = thread_step.acquire [where m = ?m0 and i = 0 and js = "[]", OF _ _ _ demo_update]
  from thread_run_one [OF acq] have 1: "thread_run (recording_api []) local_peer ?m0 [(0, Some (Request 3 [''3'', ''bob'', ''pw'']))]
     (?m0\<lparr>lock := Some 0, thr := (thr ?m0)(0 := (thr ?m0 0)\<lparr>todo := [], cur := Some (Step (\<lambda>s.
        (Emit (Sent 3 (xor_text ''f0:ok'')) Done, s\<lparr>sdb := sdb s @ [sql_update_user ''bob'' ''pw'']\<rparr>)))\<rparr>)\<rparr>)"
    (is "thread_run _ _ _ _ ?m1")
    by (simp add: start_machine_def demo_todos_def)
  have "thread_step (recording_api []) local_peer 0 None ?m1 (?m1\<lparr>mem := demo_mem\<lparr>sdb := [sql_update_user ''bob'' ''pw'']\<rparr>,
     thr := (thr ?m1)(0 := (thr ?m1 0)\<lparr>cur := Some (Emit (Sent 3 (xor_text ''f0:ok'')) Done)\<rparr>)\<rparr>)"
    by (rule thread_step.access [where g = "\<lambda>s. (Emit (Sent 3 (xor_text ''f0:ok'')) Done, s\<lparr>sdb := sdb s @ [sql_update_user ''bob'' ''pw'']\<rparr>)"])
      (simp_all add: start_machine_def demo_mem_def)
  also have "?m1\<lparr>mem := demo_mem\<lparr>sdb := [sql_update_user ''bob'' ''pw'']\<rparr>,
     thr := (thr ?m1)(0 := (thr ?m1 0)\<lparr>cur := Some (Emit (Sent 3 (xor_text ''f0:ok'')) Done)\<rparr>)\<rparr> = replying"
    by (simp add: replying_def start_machine_def fun_eq_iff)
  finally show ?thesis by (rule thread_run.more_steps [OF 1, unfolded append.simps])
qed

text \<open>Thread 0 sends its reply and leaves the critical section.\<close>

definition replied_machine :: "string list machine" where
  "replied_machine = replying\<lparr>lock := None, thr := (thr replying)(0 := \<lparr>todo = [], cur = None,
     events = [Sent 3 (xor_text ''f0:ok'')]\<rparr>)\<rparr>"

lemma replied_run:
  "thread_run (recording_api []) local_peer (start_machine demo_mem demo_todos)
     [(0, Some (Request 3 [''3'', ''bob'', ''pw''])), (0, None), (0, None), (0, None)] replied_machine"
proof -
  let ?m1 = "replying\<lparr>thr := (thr replying)(0 := (thr replying 0)\<lparr>cur := Some Done,
     events := events (thr replying 0) @ [Sent 3 (xor_text ''f0:ok'')]\<rparr>)\<rparr>"
  let ?m2 = "?m1\<lparr>lock := None, thr := (thr ?m1)(0 := (thr ?m1 0)\<lparr>cur := None\<rparr>)\<rparr>"
  have "thread_step (recording_api []) local_peer 0 None replying ?m1"
    by (rule thread_step.emit) (simp add: replying_def)
  note one = thread_run.more_steps [OF replying_run this, unfolded append.simps]
  have "thread_step (recording_api []) local_peer 0 None ?m1 ?m2" by (rule thread_step.release) simp
  also have "?m2 = replied_machine" by (simp add: replied_machine_def replying_def fun_eq_iff)
  finally show ?thesis by (rule thread_run.more_steps [OF one, unfolded append.simps])
qed


theorem threads_exclusive_witness:
  "cur (thr replying 0) \<noteq> None \<and> (\<exists>k l m'. thread_step (recording_api []) local_peer k l replying m')"
proof -
  have "cur (thr replying 0) \<noteq> None" "\<nexists>k f. cur (thr replying k) = Some (Crash f)" by (auto simp: replying_def)
  with threads_exclusive [OF replying_run, of 0 0] show ?thesis by blast
qed

text \<open>
  C7. One client can stop the server.  \<open>WriteSfd\<close> is called with the mutex held and loops as
  long as the socket answers \<open>EAGAIN\<close>, which it does for a client that does not read.  While
  it loops, the other threads neither reach the database nor take or return a connection
  object: they begin only jobs that need no lock.
\<close>

theorem stalled_client_blocks_all:
  assumes "thread_run api peer (start_machine s todos) tr0 m" and "cur (thr m i) = Some (Emit (Sent fd t) k)" and "t \<noteq> []"
    and "thread_run api peer m tr m'" and "i \<notin> fst ` set tr"
  shows "(\<forall>n. WriteSfd t (int (length t)) (replicate n (WriteErr EAGAIN)) = None) \<and>
    mem m' = mem m \<and> lock m' = Some i \<and> (\<forall>(j, x)\<in>set (started_jobs tr). \<exists>fd vec. x = Request fd vec \<and> act_request api peer fd vec = None)"
proof -
  have inv: "mutex_inv m" by (rule thread_run_inv [OF assms(1) mutex_inv_start])
  have "\<exists>fd vec. x = Request fd vec \<and> act_request api peer fd vec = None" if "act_of api peer x = None" for x
    using that by (cases x) simp_all
  moreover have "WriteSfd t (int (length t)) (replicate n (WriteErr EAGAIN)) = None" for n
    using assms(3) by (simp add: write_eagain)
  ultimately show ?thesis
    using stalled_run [OF assms(4) inv mutex_holder [OF inv assms(2)] assms(5)] by auto
qed

theorem stalled_client_blocks_all_witness:
  "\<exists>m'. thread_run (recording_api []) local_peer replying [(1, Some (Request 4 [''9'']))] m' \<and> mem m' = mem replying \<and>
     lock m' = Some 0"
proof -
  have none: "act_of (recording_api []) local_peer (Request 4 [''9'']) = None" by (simp add: act_request_def)
  have run: "thread_run (recording_api []) local_peer replying [(1, Some (Request 4 [''9'']))]
      (replying\<lparr>thr := (thr replying)(1 := (thr replying 1)\<lparr>todo := [Take],
         events := events (thr replying 1) @ plain_reply (Request 4 [''9''])\<rparr>)\<rparr>)"
    by (rule thread_run_one, rule thread_step.plain [OF _ _ none]) (simp_all add: replying_def demo_todos_def)
  from stalled_client_blocks_all [OF replying_run _ _ run, of 0 3 "xor_text ''f0:ok''" Done] run show ?thesis
    by (auto simp: replying_def xor_text_def)
qed

end
