(* ===== verification/ClientTcpRead.thy ===== *)
theory ClientTcpRead
  imports Utils SocketWrapper Connection CommandHandler
begin

section \<open>worker_threads.cc: ClientTcpReadCb, the echo handler\<close>

text \<open>
  The first read callback of the server, kept in the class but no longer registered: it
  collects the bytes of a connection in \<open>rBuf\<close>, checks the token once, and sends every
  complete line back.  \<open>avail\<close> is what the input buffer of the bufferevent holds; one call
  reads at most the free part of \<open>rBuf\<close> and the rest stays for the next call.  The buffer
  has \<open>DATA_BUFFER_SIZE\<close> bytes, and the first \<open>rlen\<close> of them are the data.
\<close>

definition buffer_size :: nat where
  "buffer_size = nat DATA_BUFFER_SIZE"

text \<open>\<open>bufferevent_read\<close> and \<open>memmove\<close> on the buffer.\<close>

definition buffer_write :: "nat \<Rightarrow> string \<Rightarrow> string \<Rightarrow> string" where
  "buffer_write at s buf = take at buf @ s @ drop (at + length s) buf"

definition shift_left :: "nat \<Rightarrow> nat \<Rightarrow> string \<Rightarrow> string" where
  "shift_left from n buf = take n (drop from buf) @ drop n buf"

text \<open>\<open>find_last_of(CRLF) + 1\<close>: one past the last byte that is a carriage return or a line feed.\<close>

definition after_last_of :: "string \<Rightarrow> string \<Rightarrow> nat" where
  "after_last_of cs s = length s - length (takeWhile (\<lambda>c. c \<notin> set cs) (rev s))"

text \<open>The part after the token check: whole lines are sent back and removed.\<close>

definition echo_complete :: "CONN \<Rightarrow> string \<Rightarrow> CONN \<times> (int \<times> string) list" where
  "echo_complete conn buf =
     (let str_recv = take (nat (rlen conn)) buf
      in if FindCRLF str_recv
         then let len = after_last_of CRLF str_recv
              in (conn\<lparr>rBuf := Alloc (shift_left len (buffer_size - len) buf), rlen := rlen conn - int len\<rparr>,
                  map (\<lambda>l. (sfd conn, l)) (split_tokens CRLF str_recv))
         else (conn\<lparr>rBuf := Alloc buf\<rparr>, []))"

text \<open>
  The result: the store, the \<open>WriteSfd\<close> calls with their socket and bytes, and what stays
  in the input buffer.
\<close>

definition ClientTcpReadCb ::
  "nat \<Rightarrow> addr \<Rightarrow> string \<Rightarrow> conn_store \<Rightarrow> (conn_store \<times> (int \<times> string) list \<times> string) outcome" where
  "ClientTcpReadCb bev arg avail st =
     (case heap st arg of
        None \<Rightarrow> Inl UseAfterFree
      | Some conn \<Rightarrow>
          (case rBuf conn of
             NullPtr \<Rightarrow> Inl NullDereference
           | Dangling \<Rightarrow> Inl UseAfterFree
           | Alloc buf \<Rightarrow>
               let room = nat (DATA_BUFFER_SIZE - rlen conn);
                   recv = take room avail;
                   left = drop room avail;
                   buf1 = buffer_write (nat (rlen conn)) recv buf;
                   conn1 = conn\<lparr>rlen := rlen conn + int (length recv)\<rparr>;
                   update = (\<lambda>(c, w). Inr (st\<lparr>heap := (heap st)(arg \<mapsto> c)\<rparr>, w, left))
               in if recv \<noteq> [] \<and> int TOKEN_LENGTH \<le> rlen conn1 \<and> \<not> isVerify conn1
                  then let conn2 = conn1\<lparr>isVerify := True\<rparr>
                       in if take TOKEN_LENGTH buf1 \<noteq> TOKEN_STR
                          then bindE (CloseConn arg bev (st\<lparr>heap := (heap st)(arg \<mapsto> conn2\<lparr>rBuf := Alloc buf1\<rparr>)\<rparr>))
                                 (\<lambda>st1. Inr (st1, [], left))
                          else let n = nat (rlen conn2 - int TOKEN_LENGTH)
                               in update (echo_complete (conn2\<lparr>rlen := int n\<rparr>) (shift_left TOKEN_LENGTH n buf1))
                  else update (echo_complete conn1 buf1)))"

subsection \<open>The buffer as a queue of bytes\<close>

text \<open>The bytes a connection holds, and what makes its buffer well formed.\<close>

definition held :: "CONN \<Rightarrow> string" where
  "held c = (case rBuf c of Alloc buf \<Rightarrow> take (nat (rlen c)) buf | _ \<Rightarrow> [])"

definition buffer_ok :: "CONN \<Rightarrow> bool" where
  "buffer_ok c \<longleftrightarrow> (\<exists>buf. rBuf c = Alloc buf \<and> length buf = buffer_size) \<and> 0 \<le> rlen c \<and> rlen c \<le> DATA_BUFFER_SIZE"

lemma buffer_size_simps [simp]: "buffer_size = 2048" "DATA_BUFFER_SIZE = 2048"
  by (simp_all add: buffer_size_def DATA_BUFFER_SIZE_def)

lemma length_buffer_write [simp]: "at + length s \<le> length buf \<Longrightarrow> length (buffer_write at s buf) = length buf"
  by (simp add: buffer_write_def)

lemma take_buffer_write:
  "at + length s \<le> length buf \<Longrightarrow> take (at + length s) (buffer_write at s buf) = take at buf @ s"
  by (simp add: buffer_write_def)

lemma length_shift_left [simp]: "from + n \<le> length buf \<Longrightarrow> length (shift_left from n buf) = length buf"
  by (simp add: shift_left_def)

lemma take_shift_left:
  "from + n \<le> length buf \<Longrightarrow> m \<le> n \<Longrightarrow> take m (shift_left from n buf) = drop from (take (from + m) buf)"
  by (simp add: shift_left_def take_drop add.commute)

lemma after_last_of_le: "after_last_of cs s \<le> length s"
  by (simp add: after_last_of_def)

lemma after_last_of_split:
  assumes "c \<in> set cs" and "\<forall>x\<in>set r. x \<notin> set cs"
  shows "after_last_of cs (u @ c # r) = length u + 1"
proof -
  have "takeWhile (\<lambda>c. c \<notin> set cs) (rev (u @ c # r)) = rev r"
    using assms by (simp, subst takeWhile_append2) auto
  then show ?thesis by (simp add: after_last_of_def)
qed

lemma echo_complete_result:
  assumes "length buf = buffer_size" and "0 \<le> rlen c" and "rlen c \<le> DATA_BUFFER_SIZE"
    and "d = take (nat (rlen c)) buf" and "echo_complete c buf = (c', w)"
  shows "buffer_ok c' \<and> sfd c' = sfd c \<and> isVerify c' = isVerify c \<and>
      held c' = (if FindCRLF d then drop (after_last_of CRLF d) d else d) \<and>
      w = (if FindCRLF d then map (\<lambda>l. (sfd c, l)) (split_tokens CRLF d) else [])"
proof -
  have "after_last_of CRLF d \<le> nat (rlen c)"
    using after_last_of_le [of CRLF d] assms(1,4) by simp
  then show ?thesis
    using assms
    by (auto simp: echo_complete_def Let_def buffer_ok_def held_def take_shift_left nat_diff_distrib min_def split: if_splits)
qed

lemma ClientTcpReadCb_step:
  assumes "heap st a = Some c" and "buffer_ok c" and "isVerify c"
  shows "let d = held c @ take (2048 - length (held c)) avail
    in \<exists>st' c'. ClientTcpReadCb bev a avail st =
        Inr (st', if FindCRLF d then map (\<lambda>l. (sfd c, l)) (split_tokens CRLF d) else [],
             drop (2048 - length (held c)) avail) \<and>
      heap st' a = Some c' \<and> buffer_ok c' \<and> isVerify c' \<and> sfd c' = sfd c \<and>
      held c' = (if FindCRLF d then drop (after_last_of CRLF d) d else d)"
proof -
  obtain buf where buf: "rBuf c = Alloc buf" "length buf = 2048" "0 \<le> rlen c" "rlen c \<le> 2048"
    using assms(2) by (auto simp: buffer_ok_def)
  let ?n = "nat (rlen c)"
  have n: "?n \<le> 2048" "nat (2048 - rlen c) = 2048 - ?n" "length (held c) = ?n"
    using buf by (auto simp: held_def)
  define recv where "recv = take (2048 - ?n) avail"
  define buf1 where "buf1 = buffer_write ?n recv buf"
  define c1 where "c1 = c\<lparr>rlen := rlen c + int (length recv)\<rparr>"
  have fits: "?n + length recv \<le> length buf" using n(1) buf(2) by (simp add: recv_def)
  then have buf1: "length buf1 = 2048" "take (?n + length recv) buf1 = held c @ recv"
    using buf by (simp_all add: buf1_def take_buffer_write held_def)
  have c1: "0 \<le> rlen c1" "rlen c1 \<le> 2048" "nat (rlen c1) = ?n + length recv"
    using buf(3) fits buf(2) by (auto simp: c1_def)
  have run: "ClientTcpReadCb bev a avail st =
      (case echo_complete c1 buf1 of (c', w) \<Rightarrow> Inr (st\<lparr>heap := (heap st)(a \<mapsto> c')\<rparr>, w, drop (2048 - ?n) avail))"
    using assms(1,3) buf(1) n(2) by (simp add: ClientTcpReadCb_def Let_def recv_def buf1_def c1_def)
  obtain c' w where echo: "echo_complete c1 buf1 = (c', w)" by fastforce
  have "held c @ recv = take (nat (rlen c1)) buf1" using buf1(2) c1(3) by simp
  from echo_complete_result [OF _ _ _ this echo] buf1(1) c1(1,2)
  have res: "buffer_ok c'" "sfd c' = sfd c" "isVerify c'"
    "held c' = (if FindCRLF (held c @ recv) then drop (after_last_of CRLF (held c @ recv)) (held c @ recv) else held c @ recv)"
    "w = (if FindCRLF (held c @ recv) then map (\<lambda>l. (sfd c, l)) (split_tokens CRLF (held c @ recv)) else [])"
    using assms(3) by (simp_all add: c1_def)
  show ?thesis
    unfolding Let_def n(3) recv_def [symmetric]
    by (rule exI [of _ "st\<lparr>heap := (heap st)(a \<mapsto> c')\<rparr>"], rule exI [of _ c'])
      (use res run echo in simp)
qed

lemma ClientTcpReadCb_fits:
  assumes "heap st a = Some c" and "buffer_ok c" and "isVerify c" and "length (held c) + length avail \<le> 2048"
    and "d = held c @ avail"
  obtains st' c' where "ClientTcpReadCb bev a avail st =
      Inr (st', if FindCRLF d then map (\<lambda>l. (sfd c, l)) (split_tokens CRLF d) else [], [])"
    and "heap st' a = Some c'" and "buffer_ok c'" and "isVerify c'" and "sfd c' = sfd c"
    and "held c' = (if FindCRLF d then drop (after_last_of CRLF d) d else d)"
proof -
  have d: "held c @ take (2048 - length (held c)) avail = d" "drop (2048 - length (held c)) avail = []"
    using assms(4,5) by simp_all
  from ClientTcpReadCb_step [OF assms(1-3), of avail bev, unfolded Let_def d] that show ?thesis by blast
qed

lemma ClientTcpReadCb_token:
  assumes "heap st a = Some c" and "buffer_ok c" and "\<not> isVerify c" and "held c = []" and "length r \<le> 2043"
  shows "\<exists>st' c'. ClientTcpReadCb bev a (TOKEN_STR @ r) st =
      Inr (st', if FindCRLF r then map (\<lambda>l. (sfd c, l)) (split_tokens CRLF r) else [], []) \<and>
    heap st' a = Some c' \<and> buffer_ok c' \<and> isVerify c' \<and> sfd c' = sfd c \<and>
    held c' = (if FindCRLF r then drop (after_last_of CRLF r) r else r)"
proof -
  obtain buf where buf: "rBuf c = Alloc buf" "length buf = 2048" and rlen: "rlen c = 0"
    using assms(2,4) by (auto simp: buffer_ok_def held_def)
  define t where "t = TOKEN_STR @ r"
  have t: "length t = 5 + length r" "take TOKEN_LENGTH t = TOKEN_STR" "drop TOKEN_LENGTH t = r" "t \<noteq> []"
    by (simp_all add: t_def TOKEN_STR_def TOKEN_LENGTH_def)
  define buf1 where "buf1 = buffer_write 0 t buf"
  have buf1: "length buf1 = 2048" "take (length t) buf1 = t"
    using buf(2) assms(5) t(1) take_buffer_write [of 0 t buf] by (simp_all add: buf1_def)
  have tok: "take TOKEN_LENGTH buf1 = TOKEN_STR"
    using buf1(2) t(1,2) by (metis TOKEN_LENGTH_def le_add1 min.absorb1 take_take)
  define buf2 where "buf2 = shift_left TOKEN_LENGTH (length r) buf1"
  have buf2: "length buf2 = 2048" "take (length r) buf2 = r"
    using buf1 t take_shift_left [of TOKEN_LENGTH "length r" buf1 "length r"] assms(5)
    by (simp_all add: buf2_def TOKEN_LENGTH_def)
  let ?c1 = "c\<lparr>isVerify := True, rlen := int (length r)\<rparr>"
  obtain c' w where echo: "echo_complete ?c1 buf2 = (c', w)" by fastforce
  have "ClientTcpReadCb bev a t st = Inr (st\<lparr>heap := (heap st)(a \<mapsto> c')\<rparr>, w, [])"
    using assms(1,3,5) buf rlen t tok echo [unfolded buf2_def]
    by (simp add: ClientTcpReadCb_def Let_def buf1_def [symmetric] TOKEN_LENGTH_def nat_add_distrib)
  moreover have "r = take (nat (rlen ?c1)) buf2" using buf2(2) by simp
  from echo_complete_result [OF _ _ _ this echo] buf2(1) assms(5)
  have "buffer_ok c' \<and> sfd c' = sfd c \<and> isVerify c' \<and>
      held c' = (if FindCRLF r then drop (after_last_of CRLF r) r else r) \<and>
      w = (if FindCRLF r then map (\<lambda>l. (sfd c, l)) (split_tokens CRLF r) else [])"
    by simp
  ultimately show ?thesis
    unfolding t_def [symmetric]
    by (intro exI [of _ "st\<lparr>heap := (heap st)(a \<mapsto> c')\<rparr>"] exI [of _ c']) simp
qed

subsection \<open>Properties\<close>

text \<open>
  The echo handler keeps what it did not send.  For a verified connection, one call
  appends what fits of the input to the held bytes; when these hold a line end it sends
  every line that they contain, in order, and keeps what follows the last byte that is a
  carriage return or a line feed; otherwise it sends nothing and keeps all.
\<close>

theorem ClientTcpReadCb_result:
  assumes "heap st a = Some c" and "buffer_ok c" and "isVerify c" and "d = held c @ take (2048 - length (held c)) avail"
  shows "\<exists>st' c'. ClientTcpReadCb bev a avail st =
      Inr (st', if FindCRLF d then map (\<lambda>l. (sfd c, l)) (split_tokens CRLF d) else [],
           drop (2048 - length (held c)) avail) \<and>
    heap st' a = Some c' \<and> buffer_ok c' \<and> isVerify c' \<and> sfd c' = sfd c \<and>
    held c' = (if FindCRLF d then drop (after_last_of CRLF d) d else d)"
  using ClientTcpReadCb_step [OF assms(1-3), of avail bev] unfolding Let_def assms(4) by blast

definition empty_buffer_conn :: CONN where
  "empty_buffer_conn = example_conn\<lparr>rBuf := Alloc (replicate 2048 NUL), isVerify := True\<rparr>"

lemma empty_buffer_conn_ok: "buffer_ok empty_buffer_conn" "held empty_buffer_conn = []" "isVerify empty_buffer_conn"
  by (simp_all add: empty_buffer_conn_def example_conn_def buffer_ok_def held_def del: replicate.simps)

definition ab_line :: string where
  "ab_line = ''ab'' @ CRLF @ ''c''"

lemma ab_line_simps: "FindCRLF ab_line" "split_tokens CRLF ab_line = [''ab'']" "after_last_of CRLF ab_line = 4"
    "drop 4 ab_line = ''c''" "length ab_line = 5"
  by code_simp+

theorem ClientTcpReadCb_result_witness:
  "\<exists>st' c'. ClientTcpReadCb 1 1 ab_line ((start_store static_freelist)\<lparr>heap := [1 \<mapsto> empty_buffer_conn]\<rparr>) =
      Inr (st', [(0, ''ab'')], []) \<and> heap st' 1 = Some c' \<and> held c' = ''c''"
proof -
  have "ab_line = held empty_buffer_conn @ take (2048 - length (held empty_buffer_conn)) ab_line"
    by (simp add: empty_buffer_conn_ok ab_line_simps)
  from ClientTcpReadCb_result [of "(start_store static_freelist)\<lparr>heap := [1 \<mapsto> empty_buffer_conn]\<rparr>" 1,
      OF _ empty_buffer_conn_ok(1,3) this, of 1]
  obtain st' c' where "ClientTcpReadCb 1 1 ab_line ((start_store static_freelist)\<lparr>heap := [1 \<mapsto> empty_buffer_conn]\<rparr>) =
      Inr (st', [(sfd empty_buffer_conn, ''ab'')], drop 2048 ab_line)" "heap st' 1 = Some c'" "held c' = ''c''"
    by (auto simp: ab_line_simps empty_buffer_conn_ok)
  moreover have "sfd empty_buffer_conn = 0" "drop 2048 ab_line = []"
    by (simp_all add: empty_buffer_conn_def example_conn_def ab_line_simps)
  ultimately show ?thesis by auto
qed

lemma no_line_end: "CHR 0x0D \<notin> set s \<or> CHR 0x0A \<notin> set s \<Longrightarrow> find_str CRLF s = None"
  by (auto simp: find_str_None CRLF_def sublist_def)

lemma one_line:
  assumes "set t \<inter> set CRLF = {}" and "find_str CRLF r = None"
  shows "split_tokens CRLF (t @ CRLF @ r) = [t]" and "FindCRLF (t @ CRLF @ r)"
proof -
  have "clean_token CRLF t" using assms(1) by (intro clean_token_hd) (auto simp: CRLF_def)
  then have "split_tokens CRLF (join_tokens CRLF [t] @ r) = [t] @ split_tokens CRLF r"
    by (intro split_tokens_join) (auto simp: CRLF_def)
  then show "split_tokens CRLF (t @ CRLF @ r) = [t]" using assms(2) by (simp add: split_tokens_absent)
  show "FindCRLF (t @ CRLF @ r)" unfolding FindCRLF_def by (rule sublist_framed)
qed

lemma line_in_two_reads:
  assumes "heap st a = Some c" and "buffer_ok c" and "isVerify c" and "held c = []"
    and "set l \<inter> set CRLF = {}" and "length l \<le> 2000" and "k \<le> length l"
  shows "\<exists>st1 st2. ClientTcpReadCb bev a (take k (l @ CRLF)) st = Inr (st1, [], []) \<and>
      ClientTcpReadCb bev a (drop k (l @ CRLF)) st1 = Inr (st2, [(sfd c, l)], [])"
proof -
  have part: "CHR 0x0D \<notin> set (take k l)" using assms(5) by (auto simp: CRLF_def dest: in_set_takeD)
  have "length (held c) + length (take k l) \<le> 2048" "take k l = held c @ take k l"
    using assms(4,6) by simp_all
  from ClientTcpReadCb_fits [OF assms(1-3) this, of bev] no_line_end [of "take k l"] part
  obtain st1 c1 where 1: "ClientTcpReadCb bev a (take k l) st = Inr (st1, [], [])" "heap st1 a = Some c1"
    "buffer_ok c1" "isVerify c1" "sfd c1 = sfd c" "held c1 = take k l"
    by (auto simp: FindCRLF_def)
  have "length (held c1) + length (drop k l @ CRLF) \<le> 2048" "l @ CRLF @ [] = held c1 @ drop k l @ CRLF"
    using 1(6) assms(6,7) by (simp_all add: CRLF_def flip: append_assoc)
  from ClientTcpReadCb_fits [OF 1(2-4) this, of bev] one_line [OF assms(5) no_line_end [of "[]"]] 1(5)
  obtain st2 where "ClientTcpReadCb bev a (drop k l @ CRLF) st1 = Inr (st2, [(sfd c, l)], [])"
    by auto
  with 1(1) show ?thesis using assms(7) by auto
qed

lemma line_end_cut:
  assumes "heap st a = Some c" and "buffer_ok c" and "isVerify c" and "held c = []"
    and "set l \<inter> set CRLF = {}" and "set u \<inter> set CRLF = {}" and "length u + length l \<le> 2000"
  shows "\<exists>st1 st2 c2. ClientTcpReadCb bev a (u @ CRLF @ l @ [CHR 0x0D]) st = Inr (st1, [(sfd c, u)], []) \<and>
      ClientTcpReadCb bev a [CHR 0x0A] st1 = Inr (st2, [], []) \<and> heap st2 a = Some c2 \<and> held c2 = [CHR 0x0A]"
proof -
  let ?d = "u @ CRLF @ l @ [CHR 0x0D]"
  have d: "length (held c) + length ?d \<le> 2048" "?d = held c @ ?d"
    using assms(4,7) by (simp_all add: CRLF_def)
  have "find_str CRLF (l @ [CHR 0x0D]) = None" using assms(5) by (intro no_line_end) (auto simp: CRLF_def)
  note lines = one_line [OF assms(6) this]
  have "after_last_of CRLF ?d = length ?d"
    using after_last_of_split [of "CHR 0x0D" CRLF "[]" "u @ CRLF @ l"] by (simp add: CRLF_def)
  with ClientTcpReadCb_fits [OF assms(1-3) d, of bev] lines
  obtain st1 c1 where 1: "ClientTcpReadCb bev a ?d st = Inr (st1, [(sfd c, u)], [])" "heap st1 a = Some c1"
    "buffer_ok c1" "isVerify c1" "sfd c1 = sfd c" "held c1 = []"
    by auto
  have "length (held c1) + length [CHR 0x0A] \<le> 2048" "[CHR 0x0A] = held c1 @ [CHR 0x0A]" using 1(6) by simp_all
  note rest = ClientTcpReadCb_fits [OF 1(2-4) this, of bev]
  obtain st2 c2 where "ClientTcpReadCb bev a [CHR 0x0A] st1 = Inr (st2, [], [])" "heap st2 a = Some c2" "held c2 = [CHR 0x0A]"
    by (rule rest) (use no_line_end [of "[CHR 0x0A]"] that in \<open>auto simp: FindCRLF_def simp del: find_str.simps\<close>)
  with 1(1) show ?thesis by blast
qed

text \<open>
  C35. Lines survive the way they were cut, up to one place.  A line without carriage
  return and line feed that arrives in two reads, cut anywhere before its line end, is
  sent back whole by the second read.  But when the cut falls between the two bytes of the
  line end and another line was complete before, the whole line is thrown away.
\<close>

theorem ClientTcpReadCb_reassembles:
  assumes "heap st a = Some c" and "buffer_ok c" and "isVerify c" and "held c = []"
    and "set l \<inter> set CRLF = {}" and "set u \<inter> set CRLF = {}" and "length u + length l \<le> 2000" and "k \<le> length l"
  shows "(\<exists>st1 st2. ClientTcpReadCb bev a (take k (l @ CRLF)) st = Inr (st1, [], []) \<and>
      ClientTcpReadCb bev a (drop k (l @ CRLF)) st1 = Inr (st2, [(sfd c, l)], [])) \<and>
    (\<exists>st1 st2 c2. ClientTcpReadCb bev a (u @ CRLF @ l @ [CHR 0x0D]) st = Inr (st1, [(sfd c, u)], []) \<and>
      ClientTcpReadCb bev a [CHR 0x0A] st1 = Inr (st2, [], []) \<and> heap st2 a = Some c2 \<and> held c2 = [CHR 0x0A])"
  using line_in_two_reads [OF assms(1-5) _ assms(8), of bev] line_end_cut [OF assms(1-7), of bev] assms(7) by simp

theorem ClientTcpReadCb_reassembles_witness:
  "\<exists>st st1 st2. ClientTcpReadCb 1 1 ''a'' st = Inr (st1, [], []) \<and>
     ClientTcpReadCb 1 1 (CHR ''b'' # CRLF) st1 = Inr (st2, [(0, ''ab'')], [])"
proof -
  let ?st = "(start_store static_freelist)\<lparr>heap := [1 \<mapsto> empty_buffer_conn]\<rparr>"
  have "sfd empty_buffer_conn = 0" by (simp add: empty_buffer_conn_def example_conn_def)
  with ClientTcpReadCb_reassembles [of ?st 1 empty_buffer_conn "''ab''" "''c''" 1 1,
      OF _ empty_buffer_conn_ok(1,3,2)]
  have "\<exists>st1 st2. ClientTcpReadCb 1 1 ''a'' ?st = Inr (st1, [], []) \<and>
     ClientTcpReadCb 1 1 (CHR ''b'' # CRLF) st1 = Inr (st2, [(0, ''ab'')], [])"
    by (simp add: CRLF_def)
  then show ?thesis by blast
qed

end
