(* ===== verification/Callbacks.thy ===== *)
theory Callbacks
  imports Reload
begin

section \<open>worker_threads.cc: the callbacks of the workers, step by step\<close>

text \<open>
  The steps of Server are whole callbacks.  In the program the workers are threads, and their
  callbacks overlap: what one callback does to the queue of its worker, to the pool, to its
  connection object and to libevent comes between what others do.  Here every such action is a
  step of its own.  The field \<open>busy\<close> says where the callback of each thread stands; \<open>home\<close> is
  the event base to which a bufferevent belongs, so the thread that runs its callbacks.

  Guarded by a mutex in the code are the queue and the pool; the fields of a \<open>CONN\<close> are not.
  That no two threads touch the same object is a property of the code, shown below.  The
  allocator gives an address that is not in use, libevent a bufferevent that is not live.  A
  step that would be undefined behaviour has no rule; \<open>Down\<close> is a thread whose next action
  kills the process (\<open>ReadPipeCb\<close> uses the NULL it got from \<open>InitNewConn\<close>).
\<close>

datatype phase =
    Idle
  | Popped int
  | Allocating int
  | Filling int addr
  | Binding int addr
  | GivingUp addr
  | Down
  | Reading nat addr string
  | Serving nat addr "string list"
  | Rejecting nat addr
  | Closing addr
  | Returning addr

record 'db tserver = "'db server" +
  busy :: "nat \<Rightarrow> phase"
  home :: "nat \<Rightarrow> nat"

text \<open>
  \<open>ReadPipeCb\<close> and \<open>InitNewConn\<close> go from \<open>Popped\<close> to the live bufferevent, \<open>start_routine\<close> from
  \<open>Reading\<close> to the last message or to the rejection, \<open>CloseConn\<close> from \<open>Closing\<close> to the pool.
\<close>

definition after_notify :: "CONN_INFO option \<Rightarrow> phase" where
  "after_notify c = (case c of None \<Rightarrow> Idle | Some connInfo \<Rightarrow> if ci_sfd connInfo \<noteq> 0 then Popped (ci_sfd connInfo) else Idle)"

definition after_get :: "int \<Rightarrow> addr option \<Rightarrow> phase" where
  "after_get fd c = (case c of None \<Rightarrow> Allocating fd | Some a \<Rightarrow> Filling fd a)"

definition needs_token :: "string \<Rightarrow> CONN \<Rightarrow> bool" where
  "needs_token readbuf conn \<longleftrightarrow> TOKEN_LENGTH \<le> length readbuf \<and> \<not> isVerify conn"

definition check_token :: "string \<Rightarrow> CONN \<Rightarrow> CONN" where
  "check_token readbuf conn = (if needs_token readbuf conn then conn\<lparr>isVerify := True\<rparr> else conn)"

definition messages_of :: "string \<Rightarrow> string list" where
  "messages_of str_recv = (if FindCRLF str_recv \<and> FindSPACE str_recv then split_tokens CRLF str_recv else [])"

definition after_check :: "nat \<Rightarrow> addr \<Rightarrow> string \<Rightarrow> CONN \<Rightarrow> phase" where
  "after_check bev a readbuf conn =
     (if needs_token readbuf conn \<and> take TOKEN_LENGTH readbuf \<noteq> TOKEN_STR then Rejecting bev a
      else Serving bev a (messages_of readbuf))"

inductive thread_callback ::
  "'db mysql_api \<Rightarrow> (int \<Rightarrow> in_addr) \<Rightarrow> CGlobalSettings \<Rightarrow> nat option \<Rightarrow> 'db tserver \<Rightarrow> 'db tserver \<Rightarrow> bool"
  for api peer g where
  accept: "AccepCb env (thread_num g) (master s) = Inr m \<Longrightarrow>
    thread_callback api peer g None s (s\<lparr>master := m\<rparr>)"
| pop: "busy s i = Idle \<Longrightarrow> i < length (vec_libevent_thread (worker_thread (master s))) \<Longrightarrow>
    read_notify i (worker_thread (master s)) = (c, w) \<Longrightarrow>
    thread_callback api peer g (Some i) s
      (s\<lparr>master := (master s)\<lparr>worker_thread := w\<rparr>, busy := (busy s)(i := after_notify c)\<rparr>)"
| get: "busy s i = Popped fd \<Longrightarrow> GetConnFromFreelist (pool (conns s)) = Inr (c, p) \<Longrightarrow>
    thread_callback api peer g (Some i) s
      (s\<lparr>conns := (conns s)\<lparr>pool := p\<rparr>, busy := (busy s)(i := after_get fd c)\<rparr>)"
| allocate: "busy s i = Allocating fd \<Longrightarrow> heap (conns s) a = None \<Longrightarrow>
    thread_callback api peer g (Some i) s
      (s\<lparr>conns := (conns s)\<lparr>heap := (heap (conns s))(a \<mapsto> j\<lparr>rBuf := Alloc r, wBuf := Alloc w\<rparr>)\<rparr>,
         busy := (busy s)(i := Filling fd a)\<rparr>)"
| no_memory: "busy s i = Allocating fd \<Longrightarrow>
    thread_callback api peer g (Some i) s (s\<lparr>busy := (busy s)(i := Down)\<rparr>)"
| fill: "busy s i = Filling fd a \<Longrightarrow> heap (conns s) a = Some c \<Longrightarrow>
    thread_callback api peer g (Some i) s
      (s\<lparr>conns := (conns s)\<lparr>heap := (heap (conns s))(a \<mapsto> init_fields fd i c)\<rparr>, busy := (busy s)(i := Binding fd a)\<rparr>)"
| bind: "busy s i = Binding fd a \<Longrightarrow> live (conns s) b = None \<Longrightarrow>
    thread_callback api peer g (Some i) s
      (s\<lparr>conns := (conns s)\<lparr>live := (live (conns s))(b \<mapsto> \<lparr>cbarg = a, read_timeout = client_heartbeat_timeout g\<rparr>)\<rparr>,
         busy := (busy s)(i := Idle), home := (home s)(b := i)\<rparr>)"
| no_bufferevent: "busy s i = Binding fd a \<Longrightarrow>
    thread_callback api peer g (Some i) s (s\<lparr>busy := (busy s)(i := GivingUp a)\<rparr>)"
| give_up: "busy s i = GivingUp a \<Longrightarrow> AddConnToFreelist a (pool (conns s)) = Inr (True, p) \<Longrightarrow>
    thread_callback api peer g (Some i) s (s\<lparr>conns := (conns s)\<lparr>pool := p\<rparr>, busy := (busy s)(i := Down)\<rparr>)"
| read: "busy s i = Idle \<Longrightarrow> live (conns s) b = Some x \<Longrightarrow> home s b = i \<Longrightarrow> length chunk \<le> BUFSIZE \<Longrightarrow>
    thread_callback api peer g (Some i) s (s\<lparr>busy := (busy s)(i := Reading b (cbarg x) (xor_text chunk))\<rparr>)"
| check: "busy s i = Reading b a readbuf \<Longrightarrow> heap (conns s) a = Some c \<Longrightarrow>
    thread_callback api peer g (Some i) s
      (s\<lparr>conns := (conns s)\<lparr>heap := (heap (conns s))(a \<mapsto> check_token readbuf c)\<rparr>,
         busy := (busy s)(i := after_check b a readbuf c)\<rparr>)"
| message: "busy s i = Serving b a (m # ms) \<Longrightarrow> heap (conns s) a = Some c \<Longrightarrow>
    process_message api peer (sfd c) m (sio s) = Inr r \<Longrightarrow>
    thread_callback api peer g (Some i) s (s\<lparr>sio := r, busy := (busy s)(i := Serving b a ms)\<rparr>)"
| served: "busy s i = Serving b a [] \<Longrightarrow>
    thread_callback api peer g (Some i) s (s\<lparr>busy := (busy s)(i := Idle)\<rparr>)"
| reject: "busy s i = Rejecting b a \<Longrightarrow>
    thread_callback api peer g (Some i) s
      (s\<lparr>conns := (conns s)\<lparr>live := (live (conns s))(b := None)\<rparr>, busy := (busy s)(i := Closing a)\<rparr>)"
| event: "busy s i = Idle \<Longrightarrow> live (conns s) b = Some x \<Longrightarrow> home s b = i \<Longrightarrow>
    thread_callback api peer g (Some i) s
      (s\<lparr>conns := (conns s)\<lparr>live := (live (conns s))(b := None)\<rparr>, busy := (busy s)(i := Closing (cbarg x))\<rparr>)"
| log_close: "busy s i = Closing a \<Longrightarrow> heap (conns s) a = Some c \<Longrightarrow>
    thread_callback api peer g (Some i) s (s\<lparr>busy := (busy s)(i := Returning a)\<rparr>)"
| give: "busy s i = Returning a \<Longrightarrow> AddConnToFreelist a (pool (conns s)) = Inr (True, p) \<Longrightarrow>
    thread_callback api peer g (Some i) s (s\<lparr>conns := (conns s)\<lparr>pool := p\<rparr>, busy := (busy s)(i := Idle)\<rparr>)"

inductive_cases thread_callbackE: "thread_callback api peer g i s s'"

text \<open>Which thread moves is left open in a run.\<close>

definition callback_step ::
  "'db mysql_api \<Rightarrow> (int \<Rightarrow> in_addr) \<Rightarrow> CGlobalSettings \<Rightarrow> 'db tserver \<Rightarrow> 'db tserver \<Rightarrow> bool" where
  "callback_step api peer g s s' \<longleftrightarrow> (\<exists>i. thread_callback api peer g i s s')"

definition threads_start :: "CMasterThread \<Rightarrow> freelist \<Rightarrow> 'db io \<Rightarrow> 'db tserver" where
  "threads_start m fl r = \<lparr>master = m, conns = start_store fl, sio = r, busy = (\<lambda>_. Idle), home = (\<lambda>_. 0)\<rparr>"

subsection \<open>Who owns an object\<close>

text \<open>
  \<open>held\<close> is an object that a callback has taken out of the pool or away from libevent, \<open>uses\<close>
  the bufferevent whose callback runs with its object.
\<close>

fun held :: "phase \<Rightarrow> addr option" where
  "held (Filling fd a) = Some a"
| "held (Binding fd a) = Some a"
| "held (GivingUp a) = Some a"
| "held (Closing a) = Some a"
| "held (Returning a) = Some a"
| "held _ = None"

fun uses :: "phase \<Rightarrow> (nat \<times> addr) option" where
  "uses (Reading b a t) = Some (b, a)"
| "uses (Serving b a ms) = Some (b, a)"
| "uses (Rejecting b a) = Some (b, a)"
| "uses _ = None"

definition touches :: "phase \<Rightarrow> addr \<Rightarrow> bool" where
  "touches p a \<longleftrightarrow> held p = Some a \<or> (\<exists>b. uses p = Some (b, a))"

datatype owner = InPool | OfBev nat | OfThread nat

text \<open>Every object has one owner, and \<open>own\<close> names it.\<close>

definition owns :: "(addr \<rightharpoonup> owner) \<Rightarrow> 'db tserver \<Rightarrow> bool" where
  "owns own s \<longleftrightarrow>
     dom own = dom (heap (conns s)) \<and>
     (\<forall>a. own a = Some InPool \<longleftrightarrow> a \<in> set (pool_stack (pool (conns s)))) \<and>
     (\<forall>a b. own a = Some (OfBev b) \<longleftrightarrow> (\<exists>x. live (conns s) b = Some x \<and> cbarg x = a)) \<and>
     (\<forall>a i. own a = Some (OfThread i) \<longleftrightarrow> held (busy s i) = Some a) \<and>
     (\<forall>i b a. uses (busy s i) = Some (b, a) \<longrightarrow> home s b = i \<and> own a = Some (OfBev b))"

definition buffers_ok :: "conn_store \<Rightarrow> bool" where
  "buffers_ok st \<longleftrightarrow> (\<forall>a c. heap st a = Some c \<longrightarrow> (\<exists>r w. rBuf c = Alloc r \<and> wBuf c = Alloc w))"

definition callback_inv :: "nat \<Rightarrow> 'db tserver \<Rightarrow> bool" where
  "callback_inv k s \<longleftrightarrow>
     pool_inv (pool (conns s)) \<and> distinct (pool_stack (pool (conns s))) \<and> buffers_ok (conns s) \<and>
     length (vec_libevent_thread (worker_thread (master s))) = k \<and> (\<exists>own. owns own s)"

lemma owns_start: "owns (\<lambda>_. None) (threads_start m fl r)"
  by (simp add: owns_def threads_start_def)

lemma callback_inv_start: "fresh_pool k (worker_thread m) \<Longrightarrow> callback_inv k (threads_start m fl r)"
  using start_store_inv [of fl] owns_start [of m fl r]
  unfolding callback_inv_def store_inv_def buffers_ok_def fresh_pool_def
  by (auto simp: threads_start_def)

lemma after_notify_free [simp]: "held (after_notify c) = None" "uses (after_notify c) = None"
  by (auto simp: after_notify_def split: option.split)

lemma after_get_holds [simp]: "held (after_get fd c) = c" "uses (after_get fd c) = None"
  by (auto simp: after_get_def split: option.split)

lemma after_check_uses [simp]: "held (after_check b a t c) = None" "uses (after_check b a t c) = Some (b, a)"
  by (auto simp: after_check_def)

lemma check_token_bufs [simp]:
  "rBuf (check_token t c) = rBuf c" "wBuf (check_token t c) = wBuf c" "sfd (check_token t c) = sfd c"
  by (simp_all add: check_token_def)

text \<open>A step that changes neither the pool nor libevent nor what its thread holds.\<close>

lemma owns_keep:
  assumes "owns own s" and "dom (heap st) = dom (heap (conns s))" and "live st = live (conns s)"
    and "pool_stack (pool st) = pool_stack (pool (conns s))" and "held p = held (busy s i)"
    and "\<And>b a. uses p = Some (b, a) \<Longrightarrow> home s b = i \<and> own a = Some (OfBev b)"
    and "conns s' = st" and "busy s' = (busy s)(i := p)" and "home s' = home s"
  shows "owns own s'"
  using assms unfolding owns_def by auto

text \<open>The object \<open>a\<close> goes from one owner to another.\<close>

lemma ownsD:
  assumes "owns own s"
  shows "dom own = dom (heap (conns s))"
    and "own a = Some InPool \<longleftrightarrow> a \<in> set (pool_stack (pool (conns s)))"
    and "own a = Some (OfBev b) \<longleftrightarrow> (\<exists>x. live (conns s) b = Some x \<and> cbarg x = a)"
    and "own a = Some (OfThread i) \<longleftrightarrow> held (busy s i) = Some a"
    and "uses (busy s i) = Some (b, a) \<Longrightarrow> home s b = i \<and> own a = Some (OfBev b)"
  using assms unfolding owns_def by auto

text \<open>The object \<open>a\<close> gets the owner \<open>q\<close>, everything else stays.\<close>

lemma owns_move:
  assumes own: "owns own s"
    and "dom (heap (conns s')) = insert a (dom (heap (conns s)))"
    and "\<And>c. c \<in> set (pool_stack (pool (conns s'))) \<longleftrightarrow> (if c = a then q = InPool else c \<in> set (pool_stack (pool (conns s))))"
    and "\<And>c d. (\<exists>x. live (conns s') d = Some x \<and> cbarg x = c) \<longleftrightarrow>
      (if c = a then q = OfBev d else \<exists>x. live (conns s) d = Some x \<and> cbarg x = c)"
    and "\<And>c j. held (busy s' j) = Some c \<longleftrightarrow> (if c = a then q = OfThread j else held (busy s j) = Some c)"
    and "\<And>j d c. uses (busy s' j) = Some (d, c) \<Longrightarrow>
      home s' d = j \<and> (if c = a then q = OfBev d else own c = Some (OfBev d))"
  shows "owns (own(a \<mapsto> q)) s'"
  unfolding owns_def assms(3-5) using assms(2,6) ownsD [OF own] by auto

lemma owner_facts:
  assumes "owns own s"
  shows "own a \<noteq> Some InPool \<Longrightarrow> a \<notin> set (pool_stack (pool (conns s)))"
    and "own a \<noteq> Some (OfBev d) \<Longrightarrow> live (conns s) d = Some x \<Longrightarrow> cbarg x \<noteq> a"
    and "own a \<noteq> Some (OfThread j) \<Longrightarrow> held (busy s j) \<noteq> Some a"
    and "own a = Some (OfBev d) \<Longrightarrow> \<exists>x. live (conns s) d = Some x \<and> cbarg x = a"
    and "own a = Some (OfThread j) \<Longrightarrow> held (busy s j) = Some a"
  using ownsD [OF assms] by auto

lemma owns_to_thread:
  assumes own: "owns own s" and idle: "held (busy s i) = None" and p: "held p = Some a" "uses p = None"
    and heap: "dom (heap (conns s')) = insert a (dom (heap (conns s)))"
    and thr: "\<And>j. own a \<noteq> Some (OfThread j)"
    and pool: "\<And>c. c \<in> set (pool_stack (pool (conns s'))) \<longleftrightarrow> c \<noteq> a \<and> c \<in> set (pool_stack (pool (conns s)))"
    and live: "\<And>d. live (conns s') d = (if own a = Some (OfBev d) then None else live (conns s) d)"
    and s': "busy s' = (busy s)(i := p)" "home s' = home s"
    and users: "\<And>d. own a = Some (OfBev d) \<Longrightarrow> home s d = i"
  shows "owns (own(a \<mapsto> OfThread i)) s'"
proof (rule owns_move [OF own heap])
  fix c d
  show "(\<exists>x. live (conns s') d = Some x \<and> cbarg x = c) \<longleftrightarrow>
      (if c = a then OfThread i = OfBev d else \<exists>x. live (conns s) d = Some x \<and> cbarg x = c)"
    using owner_facts(2,4) [OF own, of a d] unfolding live by auto
next
  fix c j
  show "held (busy s' j) = Some c \<longleftrightarrow> (if c = a then OfThread i = OfThread j else held (busy s j) = Some c)"
    using owner_facts(3) [OF own thr] p(1) idle unfolding s' by auto
next
  fix j d c
  assume "uses (busy s' j) = Some (d, c)"
  then have j: "j \<noteq> i" "uses (busy s j) = Some (d, c)" using p(2) by (auto simp: s' split: if_splits)
  from ownsD(5) [OF own j(2)] j(1) users show "home s' d = j \<and> (if c = a then OfThread i = OfBev d else own c = Some (OfBev d))"
    by (auto simp: s')
qed (simp add: pool)

lemma owns_to_pool:
  assumes own: "owns own s" and p: "held (busy s i) = Some a" "held p = None" "uses p = None"
    and st: "heap (conns s') = heap (conns s)" "live (conns s') = live (conns s)"
      "pool_stack (pool (conns s')) = a # pool_stack (pool (conns s))"
    and s': "busy s' = (busy s)(i := p)" "home s' = home s"
  shows "owns (own(a \<mapsto> InPool)) s'"
proof -
  have a: "own a = Some (OfThread i)" using ownsD(4) [OF own] p(1) by simp
  have live: "live (conns s) d = Some x \<Longrightarrow> cbarg x \<noteq> a" for d x by (rule owner_facts(2) [OF own]) (simp add: a)
  have held: "held (busy s j) = Some a \<Longrightarrow> j = i" for j using ownsD(4) [OF own] a by (metis option.inject owner.inject(2))
  have used: "uses (busy s j) = Some (d, c) \<Longrightarrow> c \<noteq> a" for j d c using ownsD(5) [OF own] a by fastforce
  have dom: "dom (heap (conns s')) = insert a (dom (heap (conns s)))" using ownsD(1) [OF own] a st(1) by auto
  show ?thesis
  proof (rule owns_move [OF own dom])
    fix c d
    show "(\<exists>x. live (conns s') d = Some x \<and> cbarg x = c) \<longleftrightarrow>
        (if c = a then InPool = OfBev d else \<exists>x. live (conns s) d = Some x \<and> cbarg x = c)"
      using live by (auto simp: st(2))
  next
    fix c j
    show "held (busy s' j) = Some c \<longleftrightarrow> (if c = a then InPool = OfThread j else held (busy s j) = Some c)"
      using p by (cases "j = i") (auto simp: s' dest: held)
  next
    fix j d c
    assume "uses (busy s' j) = Some (d, c)"
    then have "uses (busy s j) = Some (d, c)" using p(3) by (auto simp: s' split: if_splits)
    from ownsD(5) [OF own this] used [OF this] show "home s' d = j \<and> (if c = a then InPool = OfBev d else own c = Some (OfBev d))"
      by (simp add: s')
  qed (simp add: st(3))
qed

lemma owns_to_bev:
  assumes own: "owns own s" and p: "held (busy s i) = Some a" "held p = None" "uses p = None"
    and st: "heap (conns s') = heap (conns s)" "live (conns s) b = None" "live (conns s') = (live (conns s))(b \<mapsto> x)" "cbarg x = a"
      "pool_stack (pool (conns s')) = pool_stack (pool (conns s))"
    and s': "busy s' = (busy s)(i := p)" "home s' = (home s)(b := i)"
  shows "owns (own(a \<mapsto> OfBev b)) s'"
proof -
  have a: "own a = Some (OfThread i)" using ownsD(4) [OF own] p(1) by simp
  have live: "live (conns s) d = Some y \<Longrightarrow> cbarg y \<noteq> a" for d y by (rule owner_facts(2) [OF own]) (simp add: a)
  have held: "held (busy s j) = Some a \<Longrightarrow> j = i" for j using ownsD(4) [OF own] a by (metis option.inject owner.inject(2))
  have used: "uses (busy s j) = Some (d, c) \<Longrightarrow> c \<noteq> a \<and> d \<noteq> b" for j d c
    using ownsD(5) [OF own] owner_facts(4) [OF own] a st(2) by fastforce
  have out: "a \<notin> set (pool_stack (pool (conns s)))" by (rule owner_facts(1) [OF own]) (simp add: a)
  have dom: "dom (heap (conns s')) = insert a (dom (heap (conns s)))" using ownsD(1) [OF own] a st(1) by auto
  show ?thesis
  proof (rule owns_move [OF own dom])
    fix c d
    show "(\<exists>y. live (conns s') d = Some y \<and> cbarg y = c) \<longleftrightarrow>
        (if c = a then OfBev b = OfBev d else \<exists>y. live (conns s) d = Some y \<and> cbarg y = c)"
      using live st(2,4) by (auto simp: st(3))
  next
    fix c j
    show "held (busy s' j) = Some c \<longleftrightarrow> (if c = a then OfBev b = OfThread j else held (busy s j) = Some c)"
      using p by (cases "j = i") (auto simp: s' dest: held)
  next
    fix j d c
    assume "uses (busy s' j) = Some (d, c)"
    then have "uses (busy s j) = Some (d, c)" using p(3) by (auto simp: s' split: if_splits)
    from ownsD(5) [OF own this] used [OF this] show "home s' d = j \<and> (if c = a then OfBev b = OfBev d else own c = Some (OfBev d))"
      by (simp add: s')
  qed (use out in \<open>simp add: st(5)\<close>)
qed

lemma buffers_ok_upd:
  "buffers_ok st \<Longrightarrow> heap st' = (heap st)(a \<mapsto> c) \<Longrightarrow> rBuf c = Alloc r \<Longrightarrow> wBuf c = Alloc w \<Longrightarrow> buffers_ok st'"
  "buffers_ok st \<Longrightarrow> heap st' = heap st \<Longrightarrow> buffers_ok st'"
  by (auto simp: buffers_ok_def)

subsection \<open>Every step keeps the owners\<close>

lemma callback_inv_step:
  assumes "thread_callback api peer g i s s'" and "callback_inv k s"
  shows "callback_inv k s'"
proof -
  obtain own where own: "owns own s" using assms(2) by (auto simp: callback_inv_def)
  have inv: "pool_inv (pool (conns s))" "distinct (pool_stack (pool (conns s)))" "buffers_ok (conns s)"
    "length (vec_libevent_thread (worker_thread (master s))) = k"
    using assms(2) by (simp_all add: callback_inv_def)
  note old = ownsD [OF own]
  show ?thesis
    using assms(1)
  proof cases
    case (accept env m)
    then have "owns own s'" using own by (simp add: owns_def)
    with accept inv AccepCb_length [OF accept(3)] show ?thesis by (auto simp: callback_inv_def)
  next
    case (pop j c w)
    have "owns own s'" by (rule owns_keep [OF own, where i = j and p = "after_notify c"]) (simp_all add: pop)
    moreover have "length (vec_libevent_thread w) = k"
      using read_notify_length [of j "worker_thread (master s)"] pop(5) inv(4) by simp
    ultimately show ?thesis using inv pop by (auto simp: callback_inv_def)
  next
    case (get j fd c p)
    have res: "pool_inv p" "case c of None \<Rightarrow> pool_stack (pool (conns s)) = [] \<and> pool_stack p = []
        | Some a \<Rightarrow> pool_stack (pool (conns s)) = a # pool_stack p"
      using fp.get_result [OF inv(1) get(4)] by auto
    have "\<exists>own'. owns own' s'"
    proof (cases c)
      case None
      with res have "owns own s'"
        by (intro owns_keep [OF own, where i = j and p = "after_get fd c"]) (simp_all add: get)
      then show ?thesis by blast
    next
      case (Some a)
      with res(2) inv(2) have st: "pool_stack (pool (conns s)) = a # pool_stack p" "a \<notin> set (pool_stack p)" by auto
      then have a: "own a = Some InPool" using old(2) by simp
      have "owns (own(a \<mapsto> OfThread j)) s'"
        by (rule owns_to_thread [OF own, where p = "after_get fd c"])
          (use a st old(1) Some in \<open>auto simp: get\<close>)
      then show ?thesis by blast
    qed
    moreover have "distinct (pool_stack p)" using res(2) inv(2) by (auto split: option.splits)
    ultimately show ?thesis using inv res(1) get buffers_ok_upd(2) [OF inv(3)] by (simp add: callback_inv_def)
  next
    case (allocate j fd a w r jk)
    have a: "own a = None" using old(1) allocate(4) by (metis domIff)
    have "owns (own(a \<mapsto> OfThread j)) s'"
      by (rule owns_to_thread [OF own, where p = "Filling fd a"])
        (use a old(2) [of a] in \<open>auto simp: allocate\<close>)
    then show ?thesis
      using inv buffers_ok_upd(1) [OF inv(3), of "conns s'" a "jk\<lparr>rBuf := Alloc r, wBuf := Alloc w\<rparr>" r w]
      by (auto simp: callback_inv_def allocate)
  next
    case (no_memory j fd)
    have "owns own s'" by (rule owns_keep [OF own, where i = j and p = Down]) (simp_all add: no_memory)
    then show ?thesis using inv by (auto simp: callback_inv_def no_memory)
  next
    case (fill j fd a c)
    have "owns own s'"
      by (rule owns_keep [OF own, where i = j and p = "Binding fd a"]) (use fill in auto)
    moreover obtain r w where "rBuf c = Alloc r" "wBuf c = Alloc w" using inv(3) fill(4) unfolding buffers_ok_def by blast
    then have "buffers_ok (conns s')"
      by (intro buffers_ok_upd(1) [OF inv(3), of _ a "init_fields fd j c" r w]) (simp_all add: fill init_fields_def)
    ultimately show ?thesis using inv by (auto simp: callback_inv_def fill)
  next
    case (bind j fd a b)
    have "owns (own(a \<mapsto> OfBev b)) s'"
      by (rule owns_to_bev [OF own, where i = j and p = Idle and x = "\<lparr>cbarg = a, read_timeout = client_heartbeat_timeout g\<rparr>"])
        (simp_all add: bind)
    then show ?thesis using inv buffers_ok_upd(2) [OF inv(3)] by (auto simp: callback_inv_def bind)
  next
    case (no_bufferevent j fd a)
    have "owns own s'" by (rule owns_keep [OF own, where i = j and p = "GivingUp a"]) (simp_all add: no_bufferevent)
    then show ?thesis using inv by (auto simp: callback_inv_def no_bufferevent)
  next
    case (give_up j a p)
    have res: "pool_inv p" "pool_stack p = a # pool_stack (pool (conns s))"
      using fp.put_result [OF inv(1) give_up(4)] by auto
    have "own a = Some (OfThread j)" using old(4) give_up(3) by simp
    then have "a \<notin> set (pool_stack (pool (conns s)))" by (intro owner_facts(1) [OF own]) simp
    moreover have "owns (own(a \<mapsto> InPool)) s'"
      by (rule owns_to_pool [OF own, where i = j and p = Down]) (simp_all add: give_up res)
    ultimately show ?thesis using inv res buffers_ok_upd(2) [OF inv(3)] by (auto simp: callback_inv_def give_up)
  next
    case (read j b x chunk)
    have "own (cbarg x) = Some (OfBev b)" using old(3) read(4) by blast
    then have "owns own s'"
      by (intro owns_keep [OF own, where i = j and p = "Reading b (cbarg x) (xor_text chunk)"]) (auto simp: read)
    then show ?thesis using inv by (auto simp: callback_inv_def read)
  next
    case (check j b a t c)
    have "home s b = j \<and> own a = Some (OfBev b)" using old(5) [of j b a] check(3) by simp
    then have "owns own s'"
      by (intro owns_keep [OF own, where i = j and p = "after_check b a t c"]) (use check in auto)
    moreover obtain r w where "rBuf c = Alloc r" "wBuf c = Alloc w" using inv(3) check(4) unfolding buffers_ok_def by blast
    then have "buffers_ok (conns s')"
      by (intro buffers_ok_upd(1) [OF inv(3), of _ a "check_token t c" r w]) (simp_all add: check)
    ultimately show ?thesis using inv by (auto simp: callback_inv_def check)
  next
    case (message j b a m ms c r)
    have "home s b = j \<and> own a = Some (OfBev b)" using old(5) [of j b a] message(3) by simp
    then have "owns own s'"
      by (intro owns_keep [OF own, where i = j and p = "Serving b a ms"]) (use message in auto)
    then show ?thesis using inv by (auto simp: callback_inv_def message)
  next
    case (served j b a)
    have "owns own s'" by (rule owns_keep [OF own, where i = j and p = Idle]) (simp_all add: served)
    then show ?thesis using inv by (auto simp: callback_inv_def served)
  next
    case (reject j b a)
    have "home s b = j \<and> own a = Some (OfBev b)" using old(5) [of j b a] reject(3) by simp
    then have "owns (own(a \<mapsto> OfThread j)) s'"
      by (intro owns_to_thread [OF own, where p = "Closing a"])
        (use old(1) old(2) [of a] in \<open>auto simp: reject\<close>)
    then show ?thesis using inv buffers_ok_upd(2) [OF inv(3)] by (auto simp: callback_inv_def reject)
  next
    case (event j b x)
    have "own (cbarg x) = Some (OfBev b)" using old(3) event(4) by blast
    then have "owns (own(cbarg x \<mapsto> OfThread j)) s'"
      by (intro owns_to_thread [OF own, where p = "Closing (cbarg x)"])
        (use old(1) old(2) [of "cbarg x"] in \<open>auto simp: event\<close>)
    then show ?thesis using inv buffers_ok_upd(2) [OF inv(3)] by (auto simp: callback_inv_def event)
  next
    case (log_close j a c)
    have "owns own s'" by (rule owns_keep [OF own, where i = j and p = "Returning a"]) (simp_all add: log_close)
    then show ?thesis using inv by (auto simp: callback_inv_def log_close)
  next
    case (give j a p)
    have res: "pool_inv p" "pool_stack p = a # pool_stack (pool (conns s))"
      using fp.put_result [OF inv(1) give(4)] by auto
    have "own a = Some (OfThread j)" using old(4) give(3) by simp
    then have "a \<notin> set (pool_stack (pool (conns s)))" by (intro owner_facts(1) [OF own]) simp
    moreover have "owns (own(a \<mapsto> InPool)) s'"
      by (rule owns_to_pool [OF own, where i = j and p = Idle]) (simp_all add: give res)
    ultimately show ?thesis using inv res buffers_ok_upd(2) [OF inv(3)] by (auto simp: callback_inv_def give)
  qed
qed

lemma callback_finite_step:
  "thread_callback api peer g i s s' \<Longrightarrow> finite (dom (heap (conns s))) \<and> finite (dom (live (conns s))) \<Longrightarrow>
     finite (dom (heap (conns s'))) \<and> finite (dom (live (conns s')))"
  by (induction rule: thread_callback.induct) auto

interpretation cb: invariant_steps "callback_step api peer g"
    "\<lambda>s. callback_inv k s \<and> finite (dom (heap (conns s))) \<and> finite (dom (live (conns s)))" for api peer g k
  by unfold_locales (auto simp: callback_step_def dest: callback_inv_step callback_finite_step)

lemma threads_reach:
  assumes "fresh_pool k (worker_thread m)" and "(callback_step api peer g)\<^sup>*\<^sup>* (threads_start m fl r) s"
  shows "callback_inv k s \<and> finite (dom (heap (conns s))) \<and> finite (dom (live (conns s)))"
  by (rule cb.inv_reaches [OF assms(2)]) (use callback_inv_start [OF assms(1)] in \<open>simp add: threads_start_def\<close>)

text \<open>What the owners say about the threads.\<close>

lemma race_free:
  assumes "callback_inv k s"
  shows "(touches (busy s i) a \<and> touches (busy s j) a \<longrightarrow> i = j) \<and>
    (touches (busy s i) a \<longrightarrow> heap (conns s) a \<noteq> None \<and> a \<notin> set (pool_stack (pool (conns s))) \<and>
       (\<forall>b x. live (conns s) b = Some x \<and> cbarg x = a \<longrightarrow> home s b = i)) \<and>
    distinct (pool_stack (pool (conns s))) \<and>
    (\<forall>a\<in>dom (heap (conns s)). a \<in> set (pool_stack (pool (conns s))) \<or>
       (\<exists>b x. live (conns s) b = Some x \<and> cbarg x = a) \<or> (\<exists>i. held (busy s i) = Some a))"
proof -
  from assms obtain own where own: "owns own s" and dist: "distinct (pool_stack (pool (conns s)))"
    by (auto simp: callback_inv_def)
  note old = ownsD [OF own]
  have owner: "own a = Some (OfThread i) \<or> (\<exists>b. own a = Some (OfBev b) \<and> home s b = i)" if "touches (busy s i) a" for i
    using that old(4,5) unfolding touches_def by blast
  have "i = j" if "touches (busy s i) a" "touches (busy s j) a"
    using owner [OF that(1)] owner [OF that(2)] by auto
  moreover have "heap (conns s) a \<noteq> None \<and> a \<notin> set (pool_stack (pool (conns s))) \<and>
      (\<forall>b x. live (conns s) b = Some x \<and> cbarg x = a \<longrightarrow> home s b = i)" if "touches (busy s i) a"
  proof (intro conjI allI impI)
    show "heap (conns s) a \<noteq> None" using owner [OF that] old(1) by (metis domIff option.distinct(1))
    show "a \<notin> set (pool_stack (pool (conns s)))" using owner [OF that] old(2) [of a] by auto
    fix b x assume "live (conns s) b = Some x \<and> cbarg x = a"
    then have "own a = Some (OfBev b)" using old(3) by blast
    with owner [OF that] show "home s b = i" by auto
  qed
  moreover have "\<forall>a\<in>dom (heap (conns s)). a \<in> set (pool_stack (pool (conns s))) \<or>
       (\<exists>b x. live (conns s) b = Some x \<and> cbarg x = a) \<or> (\<exists>i. held (busy s i) = Some a)"
  proof
    fix a assume "a \<in> dom (heap (conns s))"
    then obtain q where q: "own a = Some q" using old(1) by auto
    then show "a \<in> set (pool_stack (pool (conns s))) \<or>
       (\<exists>b x. live (conns s) b = Some x \<and> cbarg x = a) \<or> (\<exists>i. held (busy s i) = Some a)"
      using old(2,3,4) by (cases q) blast+
  qed
  ultimately show ?thesis using dist by blast
qed

subsection \<open>A callback comes to its end\<close>

fun rank :: "phase \<Rightarrow> nat" where
  "rank (Popped fd) = 4"
| "rank (Allocating fd) = 3"
| "rank (Filling fd a) = 2"
| "rank (Binding fd a) = 1"
| "rank (Reading b a t) = 4 + length (messages_of t)"
| "rank (Serving b a ms) = 1 + length ms"
| "rank (Rejecting b a) = 3"
| "rank (Closing a) = 2"
| "rank (Returning a) = 1"
| "rank _ = 0"

definition short_message :: "string \<Rightarrow> bool" where
  "short_message m \<longleftrightarrow> length m + 86 < BUFSIZE"

text \<open>The reads and messages in front of the thread fit the buffers of the handler.\<close>

fun small_phase :: "phase \<Rightarrow> bool" where
  "small_phase (Reading b a t) = list_all short_message (messages_of t)"
| "small_phase (Serving b a ms) = list_all short_message ms"
| "small_phase (GivingUp a) = False"
| "small_phase Down = False"
| "small_phase _ = True"

lemma small_read: "length t \<le> 939 \<Longrightarrow> small_phase (Reading b a t)"
  using split_tokens_length [of _ CRLF t]
  by (fastforce simp: messages_of_def list_all_iff short_message_def CRLF_def BUFSIZE_def)

lemma callback_progress:
  assumes inv: "callback_inv k s" and fin: "finite (dom (heap (conns s)))" "finite (dom (live (conns s)))"
    and busy: "busy s i \<noteq> Idle" "small_phase (busy s i)"
    and wide: "wide_results api" and room: "length (pool_stack (pool (conns s))) < POOL_MAX"
  shows "\<exists>s'. thread_callback api peer g (Some i) s s' \<and> rank (busy s' i) < rank (busy s i) \<and>
    (busy s' i = Idle \<or> small_phase (busy s' i) \<and> length (pool_stack (pool (conns s'))) < POOL_MAX)"
proof -
  obtain own where own: "owns own s" using inv by (auto simp: callback_inv_def)
  have pinv: "pool_inv (pool (conns s))" using inv by (simp add: callback_inv_def)
  have obj: "\<exists>c. heap (conns s) a = Some c" if "touches (busy s i) a" for a
  proof -
    from that have "a \<in> dom own" using ownsD(4,5) [OF own] unfolding touches_def by blast
    then show ?thesis using ownsD(1) [OF own] by auto
  qed
  show ?thesis
  proof (cases "busy s i")
    case (Popped fd)
    obtain c p where "GetConnFromFreelist (pool (conns s)) = Inr (c, p)"
      by (rule fp.get_cases [OF pinv]) blast+
    from thread_callback.get [OF Popped this, of api peer g] fp.get_result [OF pinv this] Popped room show ?thesis
      by (intro exI conjI) (assumption, auto simp: after_get_def split: option.splits)
  next
    case (Allocating fd)
    obtain a where "heap (conns s) a = None" using ex_new_if_finite [OF infinite_UNIV_nat fin(1)] by auto
    from thread_callback.allocate [OF Allocating this, of api peer g] Allocating room show ?thesis
      by (intro exI conjI) (assumption, auto)
  next
    case (Filling fd a)
    with obj obtain c where "heap (conns s) a = Some c" by (auto simp: touches_def)
    from thread_callback.fill [OF Filling this, of api peer g] Filling room show ?thesis
      by (intro exI conjI) (assumption, auto)
  next
    case (Binding fd a)
    obtain b where "live (conns s) b = None" using ex_new_if_finite [OF infinite_UNIV_nat fin(2)] by auto
    from thread_callback.bind [OF Binding this, of api peer g] Binding show ?thesis
      by (intro exI conjI) (assumption, auto)
  next
    case (Reading b a t)
    with obj obtain c where "heap (conns s) a = Some c" by (auto simp: touches_def)
    from thread_callback.check [OF Reading this, of api peer g] Reading busy(2) room show ?thesis
      by (intro exI conjI) (assumption, auto simp: after_check_def)
  next
    case (Serving b a ms)
    show ?thesis
    proof (cases ms)
      case Nil
      with thread_callback.served [of s i b a api peer g] Serving show ?thesis
        by (intro exI conjI) (auto)
    next
      case (Cons x xs)
      from Serving obj obtain c where c: "heap (conns s) a = Some c" by (auto simp: touches_def)
      have "length x + 86 < BUFSIZE" using busy(2) Serving Cons by (simp add: short_message_def)
      then obtain r where "process_message api peer (sfd c) x (sio s) = Inr r"
        using process_messages_total [OF wide, of "[x]" peer "sfd c" "sio s"] by auto
      from thread_callback.message [OF _ c this, of i b xs g] Serving Cons busy(2) room show ?thesis
        by (intro exI conjI) (auto)
    qed
  next
    case (Rejecting b a)
    from thread_callback.reject [OF Rejecting, of api peer g] Rejecting room show ?thesis
      by (intro exI conjI) (assumption, auto)
  next
    case (Closing a)
    with obj obtain c where "heap (conns s) a = Some c" by (auto simp: touches_def)
    from thread_callback.log_close [OF Closing this, of api peer g] Closing room show ?thesis
      by (intro exI conjI) (assumption, auto)
  next
    case (Returning a)
    obtain p where "AddConnToFreelist a (pool (conns s)) = Inr (True, p)" using fp.put_room [OF pinv room] by blast
    from thread_callback.give [OF Returning this, of api peer g] Returning show ?thesis
      by (intro exI conjI) (assumption, auto)
  qed (use busy in auto)
qed

lemma callback_ends:
  assumes "callback_inv k s" and "finite (dom (heap (conns s)))" "finite (dom (live (conns s)))"
    and "small_phase (busy s i)" and "wide_results api" and "length (pool_stack (pool (conns s))) < POOL_MAX"
  shows "\<exists>s'. (thread_callback api peer g (Some i))\<^sup>*\<^sup>* s s' \<and> busy s' i = Idle"
  using assms(1-4,6)
proof (induction "rank (busy s i)" arbitrary: s rule: less_induct)
  case less
  show ?case
  proof (cases "busy s i = Idle")
    case True
    then show ?thesis by blast
  next
    case False
    from callback_progress [OF less.prems(1-3) False less.prems(4) assms(5) less.prems(5), of peer g]
    obtain s1 where s1: "thread_callback api peer g (Some i) s s1" "rank (busy s1 i) < rank (busy s i)"
      "busy s1 i = Idle \<or> small_phase (busy s1 i) \<and> length (pool_stack (pool (conns s1))) < POOL_MAX" by blast
    show ?thesis
    proof (cases "busy s1 i = Idle")
      case True
      then show ?thesis using s1(1) by blast
    next
      case False
      from s1(3) False less.hyps [OF s1(2) callback_inv_step [OF s1(1) less.prems(1)]]
        callback_finite_step [OF s1(1)] less.prems(2,3)
      obtain s' where "(thread_callback api peer g (Some i))\<^sup>*\<^sup>* s1 s'" "busy s' i = Idle" by blast
      with s1(1) show ?thesis by (meson converse_rtranclp_into_rtranclp)
    qed
  qed
qed

subsection \<open>Whole callbacks are a special case\<close>

definition base :: "'db tserver \<Rightarrow> 'db server" where
  "base s = \<lparr>master = master s, conns = conns s, sio = sio s\<rparr>"

lemma callback_next:
  "thread_callback api peer g i s s1 \<Longrightarrow> (callback_step api peer g)\<^sup>*\<^sup>* s1 s' \<Longrightarrow> (callback_step api peer g)\<^sup>*\<^sup>* s s'"
  by (rule converse_rtranclp_into_rtranclp) (auto simp: callback_step_def)

lemma close_run:
  assumes "busy s i = Closing a" and "heap (conns s) a = Some c" and "AddConnToFreelist a (pool (conns s)) = Inr (ok, p)"
    and "pool_inv (pool (conns s))"
  shows "(callback_step api peer g)\<^sup>*\<^sup>* s (s\<lparr>conns := (conns s)\<lparr>pool := p\<rparr>, busy := (busy s)(i := Idle)\<rparr>)"
proof -
  let ?s1 = "s\<lparr>busy := (busy s)(i := Returning a)\<rparr>"
  have "AddConnToFreelist a (pool (conns ?s1)) = Inr (True, p)"
    using assms(3) fp.put_result [OF assms(4,3)] by simp
  from thread_callback.give [OF _ this, of i api peer g]
  have "thread_callback api peer g (Some i) ?s1 (s\<lparr>conns := (conns s)\<lparr>pool := p\<rparr>, busy := (busy s)(i := Idle)\<rparr>)" by simp
  from callback_next [OF thread_callback.log_close [OF assms(1,2)] callback_next [OF this rtranclp.rtrancl_refl]]
  show ?thesis .
qed

lemma messages_run:
  assumes "process_messages api peer (sfd c) ms (sio s) = Inr r" and "busy s i = Serving b a ms" and "heap (conns s) a = Some c"
  shows "(callback_step api peer g)\<^sup>*\<^sup>* s (s\<lparr>sio := r, busy := (busy s)(i := Idle)\<rparr>)"
  using assms
proof (induction ms arbitrary: s)
  case Nil
  then have "s\<lparr>sio := r, busy := (busy s)(i := Idle)\<rparr> = s\<lparr>busy := (busy s)(i := Idle)\<rparr>" by simp
  with callback_next [OF thread_callback.served [OF Nil(2)] rtranclp.rtrancl_refl] show ?case by metis
next
  case (Cons m ms)
  then obtain r1 where r1: "process_message api peer (sfd c) m (sio s) = Inr r1"
    "process_messages api peer (sfd c) ms r1 = Inr r" by auto
  let ?s1 = "s\<lparr>sio := r1, busy := (busy s)(i := Serving b a ms)\<rparr>"
  have "(callback_step api peer g)\<^sup>*\<^sup>* ?s1 (?s1\<lparr>sio := r, busy := (busy ?s1)(i := Idle)\<rparr>)"
    by (rule Cons.IH) (simp_all add: r1(2) Cons.prems(3))
  moreover have "?s1\<lparr>sio := r, busy := (busy ?s1)(i := Idle)\<rparr> = s\<lparr>sio := r, busy := (busy s)(i := Idle)\<rparr>" by simp
  ultimately show ?case using callback_next [OF thread_callback.message [OF Cons.prems(2,3) r1(1)]] by metis
qed

lemma InitNewConn_parts:
  assumes "InitNewConn env fd tid st = Inr (Some a, st')"
  shows "\<exists>st1 c b. obtain_conn env st = Inr (Some a, st1) \<and> heap st1 a = Some c \<and> new_bev env = Some b \<and>
    st' = st1\<lparr>heap := (heap st1)(a \<mapsto> init_fields fd tid c),
      live := (live st1)(b \<mapsto> \<lparr>cbarg = a, read_timeout = heartbeat env\<rparr>)\<rparr>"
proof -
  obtain conn st1 where got: "obtain_conn env st = Inr (conn, st1)" using assms by (auto simp: InitNewConn_def)
  then obtain a1 where a1: "conn = Some a1" using assms by (cases conn) (auto simp: InitNewConn_def)
  then obtain c where c: "heap st1 a1 = Some c" using assms got by (cases "heap st1 a1") (auto simp: InitNewConn_def)
  then obtain b where "new_bev env = Some b"
    using assms got a1 by (cases "new_bev env") (auto simp: InitNewConn_def Let_def split: if_splits)
  then show ?thesis using assms got a1 c by (auto simp: InitNewConn_def Let_def)
qed

lemma new_conn_run:
  assumes "busy s i = Popped fd" and "InitNewConn env fd i (conns s) = Inr (Some a, st)" and "fresh_env env (conns s)"
    and "heartbeat env = client_heartbeat_timeout g"
  shows "\<exists>h. (callback_step api peer g)\<^sup>*\<^sup>* s (s\<lparr>conns := st, busy := (busy s)(i := Idle), home := h\<rparr>)"
proof -
  obtain st1 c b where parts: "obtain_conn env (conns s) = Inr (Some a, st1)"
    "heap st1 a = Some c" "new_bev env = Some b"
    "st = st1\<lparr>heap := (heap st1)(a \<mapsto> init_fields fd i c), live := (live st1)(b \<mapsto> \<lparr>cbarg = a, read_timeout = heartbeat env\<rparr>)\<rparr>"
    using InitNewConn_parts [OF assms(2)] by blast
  have b: "live (conns s) b = None" using assms(3) parts(3) by (simp add: fresh_env_def)
  let ?s1 = "s\<lparr>conns := st1, busy := (busy s)(i := Filling fd a)\<rparr>"
  have fill: "(callback_step api peer g)\<^sup>*\<^sup>* ?s1 (s\<lparr>conns := st, busy := (busy s)(i := Idle), home := (home s)(b := i)\<rparr>)"
    if "live st1 = live (conns s)"
  proof -
    let ?s2 = "?s1\<lparr>conns := (conns ?s1)\<lparr>heap := (heap (conns ?s1))(a \<mapsto> init_fields fd i c)\<rparr>, busy := (busy ?s1)(i := Binding fd a)\<rparr>"
    have 1: "thread_callback api peer g (Some i) ?s1 ?s2" by (rule thread_callback.fill) (simp_all add: parts(2))
    have "thread_callback api peer g (Some i) ?s2 (?s2\<lparr>conns := (conns ?s2)\<lparr>live :=
        (live (conns ?s2))(b \<mapsto> \<lparr>cbarg = a, read_timeout = client_heartbeat_timeout g\<rparr>)\<rparr>,
        busy := (busy ?s2)(i := Idle), home := (home ?s2)(b := i)\<rparr>)"
      by (rule thread_callback.bind) (simp_all add: that b)
    from callback_next [OF 1 callback_next [OF this rtranclp.rtrancl_refl]] show ?thesis
      by (simp add: parts(4) assms(4))
  qed
  from parts(1) obtain c1 p where get: "GetConnFromFreelist (pool (conns s)) = Inr (c1, p)" by (auto simp: obtain_conn_def)
  note step = callback_next [OF thread_callback.get [OF assms(1) get]]
  show ?thesis
  proof (cases c1)
    case (Some a1)
    then have "a1 = a" "st1 = (conns s)\<lparr>pool := p\<rparr>" using parts(1) get by (auto simp: obtain_conn_def Let_def)
    with step fill Some show ?thesis by (intro exI) (simp add: after_get_def)
  next
    case None
    with parts(1) get obtain r w where new: "st1 = (conns s)\<lparr>pool := p, heap := (heap (conns s))(a \<mapsto>
        (junk env)\<lparr>rBuf := Alloc r, wBuf := Alloc w\<rparr>)\<rparr>" "new_conn env = Some a"
      by (auto simp: obtain_conn_def Let_def split: option.splits)
    then have a: "heap (conns s) a = None" using assms(3) by (simp add: fresh_env_def)
    let ?s0 = "s\<lparr>conns := (conns s)\<lparr>pool := p\<rparr>, busy := (busy s)(i := Allocating fd)\<rparr>"
    have "thread_callback api peer g (Some i) ?s0 ?s1"
      using thread_callback.allocate [of ?s0 i fd a api peer g w r "junk env"] a by (simp add: new(1))
    from callback_next [OF this fill] new(1) have "(callback_step api peer g)\<^sup>*\<^sup>* ?s0
        (s\<lparr>conns := st, busy := (busy s)(i := Idle), home := (home s)(b := i)\<rparr>)" by simp
    with step None show ?thesis by (intro exI) (simp add: after_get_def)
  qed
qed

lemma serve_chunk_messages: "serve_chunk api peer fd t s = process_messages api peer fd (messages_of t) s"
  by (simp add: serve_chunk_def messages_of_def)

lemma start_routine_parts:
  assumes "heap st a = Some c"
  shows "start_routine api peer b a chunk (st, s) =
    (let t = xor_text chunk; st1 = st\<lparr>heap := (heap st)(a \<mapsto> check_token t c)\<rparr>
     in if needs_token t c \<and> take TOKEN_LENGTH t \<noteq> TOKEN_STR then bindE (CloseConn a b st1) (\<lambda>st2. Inr (st2, s))
        else bindE (process_messages api peer (sfd c) (messages_of t) s) (\<lambda>s1. Inr (st1, s1)))"
proof (cases "needs_token (xor_text chunk) c")
  case True
  then show ?thesis
    using assms by (simp add: start_routine_def needs_token_def check_token_def serve_chunk_messages Let_def)
next
  case False
  have "st\<lparr>heap := (heap st)(a \<mapsto> c)\<rparr> = st" using assms by (simp add: fun_upd_idem)
  with False show ?thesis
    using assms by (auto simp: start_routine_def needs_token_def check_token_def serve_chunk_messages Let_def)
qed

lemma read_run:
  assumes "start_routine api peer b (cbarg x) chunk (conns s, sio s) = Inr (st, r)" and "live (conns s) b = Some x"
    and "length chunk \<le> BUFSIZE" and "busy s (home s b) = Idle" and "pool_inv (pool (conns s))"
  shows "(callback_step api peer g)\<^sup>*\<^sup>* s (s\<lparr>conns := st, sio := r, busy := (busy s)(home s b := Idle)\<rparr>)"
proof -
  let ?a = "cbarg x" and ?i = "home s b" and ?t = "xor_text chunk"
  obtain c where c: "heap (conns s) ?a = Some c" using assms(1) by (cases "heap (conns s) ?a") (auto simp: start_routine_def)
  let ?s1 = "s\<lparr>busy := (busy s)(?i := Reading b ?a ?t)\<rparr>"
  let ?st = "(conns s)\<lparr>heap := (heap (conns s))(?a \<mapsto> check_token ?t c)\<rparr>"
  let ?s2 = "s\<lparr>conns := ?st, busy := (busy s)(?i := after_check b ?a ?t c)\<rparr>"
  have 1: "thread_callback api peer g (Some ?i) s ?s1" by (rule thread_callback.read [OF assms(4,2) refl assms(3)])
  have 2: "thread_callback api peer g (Some ?i) ?s1 ?s2"
    using thread_callback.check [of ?s1 ?i b ?a ?t c api peer g] c by simp
  have "(callback_step api peer g)\<^sup>*\<^sup>* ?s2 (s\<lparr>conns := st, sio := r, busy := (busy s)(?i := Idle)\<rparr>)"
  proof (cases "needs_token ?t c \<and> take TOKEN_LENGTH ?t \<noteq> TOKEN_STR")
    case True
    with assms(1) have close: "CloseConn ?a b ?st = Inr st" and r: "r = sio s"
      by (auto simp: start_routine_parts [OF c] Let_def)
    then obtain ok p where p: "AddConnToFreelist ?a (pool (conns s)) = Inr (ok, p)"
      by (auto simp: CloseConn_def Let_def)
    have "ok" using fp.put_result [OF assms(5) p] by simp
    with close p have st: "st = ?st\<lparr>live := (live (conns s))(b := None), pool := p\<rparr>"
      by (auto simp: CloseConn_def Let_def)
    let ?s3 = "s\<lparr>conns := ?st\<lparr>live := (live (conns s))(b := None)\<rparr>, busy := (busy s)(?i := Closing ?a)\<rparr>"
    have 3: "thread_callback api peer g (Some ?i) ?s2 ?s3"
      using thread_callback.reject [of ?s2 ?i b ?a api peer g] True by (simp add: after_check_def)
    have 4: "(callback_step api peer g)\<^sup>*\<^sup>* ?s3
        (?s3\<lparr>conns := (conns ?s3)\<lparr>pool := p\<rparr>, busy := (busy ?s3)(?i := Idle)\<rparr>)"
      by (rule close_run [where a = ?a and c = "check_token ?t c"]) (use p assms(5) in simp_all)
    have 5: "?s3\<lparr>conns := (conns ?s3)\<lparr>pool := p\<rparr>, busy := (busy ?s3)(?i := Idle)\<rparr> =
        s\<lparr>conns := st, sio := r, busy := (busy s)(?i := Idle)\<rparr>" by (simp add: st r)
    from callback_next [OF 3 4] show ?thesis unfolding 5 .
  next
    case False
    have st: "process_messages api peer (sfd c) (messages_of ?t) (sio s) = Inr r" "st = ?st"
      using assms(1) False unfolding start_routine_parts [OF c] Let_def if_not_P [OF False] by auto
    then have 3: "(callback_step api peer g)\<^sup>*\<^sup>* ?s2 (?s2\<lparr>sio := r, busy := (busy ?s2)(?i := Idle)\<rparr>)"
      by (intro messages_run [where c = "check_token ?t c" and a = ?a and b = b and ms = "messages_of ?t"])
        (use False in \<open>auto simp: after_check_def\<close>)
    have 4: "?s2\<lparr>sio := r, busy := (busy ?s2)(?i := Idle)\<rparr> = s\<lparr>conns := st, sio := r, busy := (busy s)(?i := Idle)\<rparr>"
      by (simp add: st(2))
    from 3 show ?thesis unfolding 4 .
  qed
  from callback_next [OF 1 callback_next [OF 2 this]] show ?thesis .
qed

text \<open>No callback is running.\<close>

definition quiet :: "'db tserver \<Rightarrow> bool" where
  "quiet s \<longleftrightarrow> (\<forall>i. busy s i = Idle)"

lemma base_start: "base (threads_start m fl r) = start_state m fl r"
  by (simp add: base_def start_state_def threads_start_def)

lemma quiet_start: "quiet (threads_start m fl r)"
  by (simp add: threads_start_def quiet_def)

lemma cover_step:
  assumes "server_step api peer g s t" and "conns_inv k s" and "base ts = s" and "quiet ts"
  shows "\<exists>ts'. (callback_step api peer g)\<^sup>*\<^sup>* ts ts' \<and> base ts' = t \<and> quiet ts'"
proof -
  have pinv: "pool_inv (pool (conns ts))" using assms(2,3) by (auto simp: conns_inv_def store_inv_def base_def)
  have s: "master s = master ts" "conns s = conns ts" "sio s = sio ts" using assms(3) by (auto simp: base_def)
  have idle: "busy ts i = Idle" for i using assms(4) by (simp add: quiet_def)
  have stay: "busy (ts\<lparr>busy := (busy ts)(i := Idle)\<rparr>) j = Idle" for i j by (simp add: idle)
  show ?thesis
    using assms(1)
  proof cases
    case (accept env m)
    then have "thread_callback api peer g None ts (ts\<lparr>master := m\<rparr>)" by (intro thread_callback.accept) (simp add: s)
    from callback_next [OF this rtranclp.rtrancl_refl] accept(1) show ?thesis
      by (intro exI conjI) (assumption, auto simp: base_def quiet_def idle s)
  next
    case (notify tid env w st)
    obtain c w1 where n: "read_notify tid (worker_thread (master ts)) = (c, w1)" by fastforce
    let ?ts1 = "ts\<lparr>master := (master ts)\<lparr>worker_thread := w1\<rparr>, busy := (busy ts)(tid := after_notify c)\<rparr>"
    have pop: "thread_callback api peer g (Some tid) ts ?ts1"
      by (rule thread_callback.pop [OF idle]) (use notify(2) n s in simp_all)
    show ?thesis
    proof (cases "after_notify c")
      case Idle
      then have "w = w1" "st = conns ts" using notify(5) n
        by (auto simp: ReadPipeCb_def after_notify_def s split: option.splits if_splits)
      with Idle callback_next [OF pop rtranclp.rtrancl_refl] notify(1) show ?thesis
        by (intro exI conjI) (assumption, auto simp: base_def quiet_def idle s)
    next
      case (Popped fd)
      then obtain ci where ci: "c = Some ci" "ci_sfd ci = fd" "fd \<noteq> 0"
        by (auto simp: after_notify_def split: option.splits if_splits)
      with notify(5) n obtain a where new: "InitNewConn env fd tid (conns ?ts1) = Inr (Some a, st)" "w = w1"
        by (auto simp: ReadPipeCb_def s split: option.splits)
      have "\<exists>h. (callback_step api peer g)\<^sup>*\<^sup>* ?ts1 (?ts1\<lparr>conns := st, busy := (busy ?ts1)(tid := Idle), home := h\<rparr>)"
        by (rule new_conn_run [OF _ new(1) _ notify(4)]) (use Popped notify(3) s in simp_all)
      then obtain h where "(callback_step api peer g)\<^sup>*\<^sup>* ?ts1 (?ts1\<lparr>conns := st, busy := (busy ?ts1)(tid := Idle), home := h\<rparr>)" ..
      from callback_next [OF pop this] notify(1) new(2) show ?thesis
        by (intro exI conjI) (assumption, auto simp: base_def quiet_def idle s)
    qed (auto simp: after_notify_def split: option.splits if_splits)
  next
    case (data bev x chunk st r)
    have "(callback_step api peer g)\<^sup>*\<^sup>* ts (ts\<lparr>conns := st, sio := r, busy := (busy ts)(home ts bev := Idle)\<rparr>)"
      by (rule read_run [where x = x and chunk = chunk]) (use data pinv in \<open>simp_all add: s idle\<close>)
    with data(1) show ?thesis
      by (intro exI conjI) (assumption, auto simp: base_def quiet_def idle s)
  next
    case (event bev x ev st)
    let ?i = "home ts bev"
    let ?ts1 = "ts\<lparr>conns := (conns ts)\<lparr>live := (live (conns ts))(bev := None)\<rparr>, busy := (busy ts)(?i := Closing (cbarg x))\<rparr>"
    have 1: "thread_callback api peer g (Some ?i) ts ?ts1"
      by (rule thread_callback.event) (use event(2) in \<open>simp_all add: s idle\<close>)
    have "cbarg x \<in> dom (heap (conns s))" using assms(2) event(2) by (auto simp: conns_inv_def store_inv_def)
    then obtain c where c: "heap (conns ?ts1) (cbarg x) = Some c" by (auto simp: s)
    obtain ok p where p: "AddConnToFreelist (cbarg x) (pool (conns ts)) = Inr (ok, p)"
      using event(3) by (auto simp: ClientTcpErrorCb_def CloseConn_def s)
    have "ok" using fp.put_result [OF pinv p] by simp
    with event(3) p have st: "st = (conns ts)\<lparr>live := (live (conns ts))(bev := None), pool := p\<rparr>"
      by (simp add: ClientTcpErrorCb_def CloseConn_def s)
    have "(callback_step api peer g)\<^sup>*\<^sup>* ?ts1 (?ts1\<lparr>conns := (conns ?ts1)\<lparr>pool := p\<rparr>, busy := (busy ?ts1)(?i := Idle)\<rparr>)"
      by (rule close_run [OF _ c]) (use p pinv in simp_all)
    from callback_next [OF 1 this] event(1) st show ?thesis
      by (intro exI conjI) (assumption, auto simp: base_def quiet_def idle s)
  qed
qed

lemma cover_run:
  assumes "(server_step api peer g)\<^sup>*\<^sup>* s t" and "conns_inv k s" and "base ts = s" and "quiet ts"
  shows "\<exists>ts'. (callback_step api peer g)\<^sup>*\<^sup>* ts ts' \<and> base ts' = t \<and> quiet ts' \<and> conns_inv k t"
  using assms(1)
proof (induction rule: rtranclp_induct)
  case base
  then show ?case using assms by blast
next
  case (step t u)
  then obtain ts' where "(callback_step api peer g)\<^sup>*\<^sup>* ts ts'" "base ts' = t" "quiet ts'" "conns_inv k t" by blast
  moreover from cover_step [OF step(2) this(4,2,3)] obtain us where
    "(callback_step api peer g)\<^sup>*\<^sup>* ts' us" "base us = u" "quiet us" by blast
  moreover have "conns_inv k u" using server_step_conns [OF step(2)] \<open>conns_inv k t\<close> .
  ultimately show ?case by (intro exI [of _ us] conjI) (auto intro: rtranclp_trans)
qed

subsection \<open>Properties\<close>

text \<open>
  No data race on a connection object, although no lock guards its fields.  In whatever
  way the callbacks of the workers interleave, no two threads work on the same object; one that
  a thread works on exists, is not in the pool, and if a bufferevent refers to it then this is
  one of the thread's own.  The pool holds no object twice, and every object is in the pool,
  with a live bufferevent, or in the hands of a callback.
\<close>

theorem callbacks_race_free:
  assumes "fresh_pool k (worker_thread m)" and "(callback_step api peer g)\<^sup>*\<^sup>* (threads_start m fl r) s"
  shows "(touches (busy s i) a \<and> touches (busy s j) a \<longrightarrow> i = j) \<and>
    (touches (busy s i) a \<longrightarrow> heap (conns s) a \<noteq> None \<and> a \<notin> set (pool_stack (pool (conns s))) \<and>
       (\<forall>b x. live (conns s) b = Some x \<and> cbarg x = a \<longrightarrow> home s b = i)) \<and>
    distinct (pool_stack (pool (conns s))) \<and>
    (\<forall>a\<in>dom (heap (conns s)). a \<in> set (pool_stack (pool (conns s))) \<or>
       (\<exists>b x. live (conns s) b = Some x \<and> cbarg x = a) \<or> (\<exists>i. held (busy s i) = Some a))"
proof -
  from threads_reach [OF assms] have "callback_inv k s" by simp
  then show ?thesis by (rule race_free)
qed

abbreviation demo_settings :: CGlobalSettings where
  "demo_settings \<equiv> small_settings\<lparr>thread_num := 2\<rparr>"

abbreviation demo_start :: "string list tserver" where
  "demo_start \<equiv> threads_start (new_master\<lparr>worker_thread := two_workers\<rparr>) static_freelist idle_io"

text \<open>A socket is accepted, the first worker takes it up and has a new object for it.\<close>

lemma demo_reach:
  "\<exists>s. (callback_step (recording_api []) local_peer demo_settings)\<^sup>*\<^sup>* demo_start s \<and> busy s 0 = Filling 10 1 \<and>
     pool_stack (pool (conns s)) = []"
proof -
  let ?step = "callback_step (recording_api []) local_peer demo_settings"
  let ?acc = "\<lparr>accepted_fd = 10, getfl = 2, setfl = \<lambda>_. 0, notify_wrote = True\<rparr>"
  define w where "w = two_workers\<lparr>vec_libevent_thread := [(new_thread (3, 4))\<lparr>
       list_conn := \<lparr>ts_list = [\<lparr>ci_sfd = 10\<rparr>]\<rparr>, pipe_len := 1\<rparr>, new_thread (5, 6)], last_thread := 0\<rparr>"
  have "AccepCb ?acc (thread_num demo_settings) (master demo_start) = Inr (new_master\<lparr>worker_thread := w\<rparr>)"
    using accept_ten by (simp add: w_def threads_start_def)
  note 1 = thread_callback.accept [OF this]
  let ?s1 = "demo_start\<lparr>master := new_master\<lparr>worker_thread := w\<rparr>\<rparr>"
  obtain w2 where "read_notify 0 (worker_thread (master ?s1)) = (Some \<lparr>ci_sfd = 10\<rparr>, w2)"
    by (simp add: w_def read_notify_def pop_front_def)
  note 2 = thread_callback.pop [OF _ _ this]
  let ?s2 = "?s1\<lparr>master := (master ?s1)\<lparr>worker_thread := w2\<rparr>, busy := (busy ?s1)(0 := after_notify (Some \<lparr>ci_sfd = 10\<rparr>))\<rparr>"
  have "GetConnFromFreelist (pool (conns ?s2)) = Inr (None, pool (conns ?s2))"
    by (intro fp.get_empty) (simp_all add: threads_start_def)
  note 3 = thread_callback.get [OF _ this]
  let ?s3 = "?s2\<lparr>conns := (conns ?s2)\<lparr>pool := pool (conns ?s2)\<rparr>, busy := (busy ?s2)(0 := after_get 10 None)\<rparr>"
  have "thread_callback (recording_api []) local_peer demo_settings (Some 0) ?s3
      (?s3\<lparr>conns := (conns ?s3)\<lparr>heap := (heap (conns ?s3))(1 \<mapsto> example_conn\<lparr>rBuf := Alloc [], wBuf := Alloc []\<rparr>)\<rparr>,
         busy := (busy ?s3)(0 := Filling 10 1)\<rparr>)"
    by (rule thread_callback.allocate) (simp_all add: after_get_def threads_start_def)
  note run = callback_next [OF 1 callback_next [OF 2 callback_next [OF 3 callback_next [OF this rtranclp.rtrancl_refl]]]]
  show ?thesis
    by (rule exI, rule conjI, rule run) (simp_all add: threads_start_def w_def after_notify_def two_workers_def)
qed

lemma two_workers_fresh: "fresh_pool 2 (worker_thread (new_master\<lparr>worker_thread := two_workers\<rparr>))"
  by (simp add: fresh_pool_def two_workers_def new_thread_def)

theorem callbacks_race_free_witness:
  "\<exists>s. (callback_step (recording_api []) local_peer demo_settings)\<^sup>*\<^sup>* demo_start s \<and> touches (busy s 0) 1 \<and>
     heap (conns s) 1 \<noteq> None \<and> \<not> touches (busy s 1) 1"
proof -
  obtain s where s: "(callback_step (recording_api []) local_peer demo_settings)\<^sup>*\<^sup>* demo_start s" "busy s 0 = Filling 10 1"
    using demo_reach by blast
  have t: "touches (busy s 0) 1" using s(2) by (simp add: touches_def)
  from callbacks_race_free [OF two_workers_fresh s(1), of 0 1 1] t have "heap (conns s) 1 \<noteq> None \<and> \<not> touches (busy s 1) 1"
    by (metis zero_neq_one)
  then show ?thesis using s(1) t by blast
qed



text \<open>
  The steps of Server, whole callbacks one after the other, are runs of the threads:
  whatever Server reaches, the threads reach with no callback running, with the same master,
  connections, database and replies.
\<close>

theorem callbacks_cover_server:
  assumes "fresh_pool k (worker_thread m)" and "(server_step api peer g)\<^sup>*\<^sup>* (start_state m fl r) s"
  shows "\<exists>t. (callback_step api peer g)\<^sup>*\<^sup>* (threads_start m fl r) t \<and>
    master t = master s \<and> conns t = conns s \<and> sio t = sio s \<and> (\<forall>i. busy t i = Idle)"
  using cover_run [OF assms(2) conns_inv_start [OF assms(1)] base_start quiet_start]
  by (auto simp: base_def quiet_def)

theorem callbacks_cover_server_witness:
  "\<exists>t. (callback_step (recording_api []) local_peer demo_settings)\<^sup>*\<^sup>* demo_start t \<and>
     last_thread (worker_thread (master t)) = 0 \<and> (\<forall>i. busy t i = Idle)"
proof -
  let ?s = "start_state (new_master\<lparr>worker_thread := two_workers\<rparr>) static_freelist idle_io"
  obtain m' where m': "AccepCb \<lparr>accepted_fd = 10, getfl = 2, setfl = \<lambda>_. 0, notify_wrote = True\<rparr>
      (thread_num demo_settings) (master ?s) = Inr m'" "last_thread (worker_thread m') = 0"
    using accept_ten by (simp add: start_state_def)
  from server_step.accept [OF m'(1)]
  have "(server_step (recording_api []) local_peer demo_settings)\<^sup>*\<^sup>* ?s (?s\<lparr>master := m'\<rparr>)" by blast
  from callbacks_cover_server [OF two_workers_fresh this] m'(2) show ?thesis by auto
qed

end
