(* ===== verification/Intruder.thy ===== *)
theory Intruder
  imports Reload
begin

section \<open>worker_threads.cc: clients that do not know the token\<close>

text \<open>
  The server of the theory Server under clients of which none sends the token: no read begins
  with it, and new objects come from the allocator unmarked.  The parameter says whether
  objects of earlier connections are used again.  These are runs of the server; what they can
  do to the database and to the clients is what the token check lets through.
\<close>

definition shows_token :: "string \<Rightarrow> bool" where
  "shows_token chunk \<longleftrightarrow> take TOKEN_LENGTH (xor_text chunk) = TOKEN_STR"

inductive intruder_step ::
  "bool \<Rightarrow> 'db mysql_api \<Rightarrow> (int \<Rightarrow> in_addr) \<Rightarrow> CGlobalSettings \<Rightarrow> 'db server \<Rightarrow> 'db server \<Rightarrow> bool"
  for reuse api peer g where
  accept: "AccepCb env (thread_num g) (master s) = Inr m \<Longrightarrow> intruder_step reuse api peer g s (s\<lparr>master := m\<rparr>)"
| notify: "tid < length (vec_libevent_thread (worker_thread (master s))) \<Longrightarrow> fresh_env env (conns s) \<Longrightarrow>
    \<not> isVerify (junk env) \<Longrightarrow> reuse \<or> pool_stack (pool (conns s)) = [] \<Longrightarrow>
    heartbeat env = client_heartbeat_timeout g \<Longrightarrow>
    ReadPipeCb env tid (worker_thread (master s), conns s) = Inr (w, st) \<Longrightarrow>
    intruder_step reuse api peer g s (s\<lparr>master := (master s)\<lparr>worker_thread := w\<rparr>, conns := st\<rparr>)"
| data: "live (conns s) bev = Some x \<Longrightarrow> length chunk \<le> BUFSIZE \<Longrightarrow> \<not> shows_token chunk \<Longrightarrow>
    start_routine api peer bev (cbarg x) chunk (conns s, sio s) = Inr (st, r) \<Longrightarrow>
    intruder_step reuse api peer g s (s\<lparr>conns := st, sio := r\<rparr>)"
| event: "live (conns s) bev = Some x \<Longrightarrow> ClientTcpErrorCb bev ev (cbarg x) (conns s) = Inr st \<Longrightarrow>
    intruder_step reuse api peer g s (s\<lparr>conns := st\<rparr>)"

inductive_cases intruder_stepE: "intruder_step reuse api peer g s s'"

lemma intruder_is_server: "intruder_step reuse api peer g s s' \<Longrightarrow> server_step api peer g s s'"
  by (elim intruder_stepE) (auto intro: server_step.intros)

lemma store_inv_owners:
  assumes "store_inv st"
  shows "set (pool_stack (pool st)) \<subseteq> dom (heap st)"
    and "live st b = Some x \<Longrightarrow> cbarg x \<in> dom (heap st) - set (pool_stack (pool st))"
  using assms unfolding store_inv_def by blast+

subsection \<open>Without reuse the check holds\<close>

definition unmarked :: "conn_store \<Rightarrow> bool" where
  "unmarked st \<longleftrightarrow> (\<forall>b x c. live st b = Some x \<longrightarrow> heap st (cbarg x) = Some c \<longrightarrow> \<not> isVerify c)"

lemma InitNewConn_frame:
  assumes "InitNewConn env fd tid st = Inr (Some a, st')" and "store_inv st" and "fresh_env env st" and "a' \<noteq> a"
  shows "heap st' a' = heap st a'"
proof -
  from assms(1) obtain conn st1 where got': "obtain_conn env st = Inr (conn, st1)"
    by (auto simp: InitNewConn_def)
  with assms(1) have conn: "conn = Some a" and "heap st' a' = heap st1 a'"
    using assms(4) by (auto simp: InitNewConn_def Let_def split: option.splits if_splits)
  with got' have got: "obtain_conn env st = Inr (Some a, st1)" by simp
  note \<open>heap st' a' = heap st1 a'\<close>
  moreover from obtain_conn_result [OF assms(2,3) got] assms(4) have "heap st1 a' = heap st a'" by auto
  ultimately show ?thesis by simp
qed

lemma unmarked_new:
  assumes "InitNewConn env fd tid st = Inr (Some a, st')" and "store_inv st" and "fresh_env env st"
    and "\<not> isVerify (junk env)" and "pool_stack (pool st) = []" and "unmarked st"
  shows "unmarked st'"
proof -
  from InitNewConn_result [OF assms(2,3,1)] assms(5) obtain b c where
    new: "store_inv st'" "live st' = (live st)(b \<mapsto> \<lparr>cbarg = a, read_timeout = heartbeat env\<rparr>)"
      "heap st' a = Some (init_fields fd tid c)" "isVerify c = isVerify (junk env)" by auto
  have "cbarg x \<noteq> a" if "live st' b' = Some x" "b' \<noteq> b" for b' x
  proof
    assume "cbarg x = a"
    with new(2) have "live st' b = Some \<lparr>cbarg = a, read_timeout = heartbeat env\<rparr>" by simp
    with new(1) that \<open>cbarg x = a\<close> show False unfolding store_inv_def by force
  qed
  then show ?thesis
    using assms(4,6) new(2-4) InitNewConn_frame [OF assms(1-3)]
    unfolding unmarked_def by (auto simp: init_fields_def split: if_splits)
qed

lemma unmarked_read:
  assumes "start_routine api peer bev (cbarg x) chunk (st, r) = Inr (st', r')" and "live st bev = Some x"
    and "store_inv st" and "unmarked st" and "\<not> shows_token chunk"
  shows "unmarked st' \<and> r' = r"
proof -
  let ?a = "cbarg x"
  have "?a \<in> dom (heap st)" using store_inv_owners(2) [OF assms(3,2)] by blast
  then obtain c where c: "heap st ?a = Some c" by blast
  then have c0: "\<not> isVerify c" using assms(2,4) by (auto simp: unmarked_def)
  show ?thesis
  proof (cases "TOKEN_LENGTH \<le> length chunk")
    case False
    then show ?thesis
      using assms(1,4) c c0 by (auto simp: start_routine_def Let_def serve_chunk_short not_le)
  next
    case True
    let ?st = "st\<lparr>heap := (heap st)(?a \<mapsto> c\<lparr>isVerify := True\<rparr>)\<rparr>"
    have close: "CloseConn ?a bev ?st = Inr st'" "r' = r"
      using assms(1,5) c c0 True by (auto simp: start_routine_def Let_def shows_token_def split: if_splits)
    have "store_inv ?st"
      using assms(3) c unfolding store_inv_def by (auto split: if_splits)
    from CloseConn_result [OF this _ refl close(1)] assms(2)
    have st': "heap st' = heap ?st" "live st' = (live st)(bev := None)" by auto
    have "cbarg y \<noteq> ?a" if "live st b = Some y" "b \<noteq> bev" for b y
      using assms(2,3) that unfolding store_inv_def by metis
    then show ?thesis
      using assms(4) close(2) unfolding unmarked_def st' by (auto split: if_splits)
  qed
qed

lemma unmarked_step:
  assumes "intruder_step False api peer g s s'" and "conns_inv k s" and "unmarked (conns s)"
  shows "conns_inv k s' \<and> unmarked (conns s') \<and> sio s' = sio s"
proof -
  have inv: "store_inv (conns s)" using assms(2) by (simp add: conns_inv_def)
  have "unmarked (conns s') \<and> sio s' = sio s"
    using assms(1)
  proof cases
    case (accept env m)
    then show ?thesis using assms(3) by simp
  next
    case (notify tid env w st)
    then have "st = conns s \<or> (\<exists>fd a. InitNewConn env fd tid (conns s) = Inr (Some a, st))"
      by (auto simp: ReadPipeCb_def split: prod.splits option.splits if_splits)
    then show ?thesis
      using notify unmarked_new [OF _ inv notify(3,4) _ assms(3)] assms(3) by auto
  next
    case (data bev x chunk st r)
    with unmarked_read [OF data(5) data(2) inv assms(3) data(4)] show ?thesis by simp
  next
    case (event bev x ev st)
    then have close: "CloseConn (cbarg x) bev (conns s) = Inr st" by (simp add: ClientTcpErrorCb_def)
    from CloseConn_result [OF inv event(2) refl this] assms(3) event(1) show ?thesis
      by (auto simp: unmarked_def split: if_splits)
  qed
  with server_step_conns [OF intruder_is_server [OF assms(1)] assms(2)] show ?thesis by blast
qed

subsection \<open>With reuse it does not\<close>

text \<open>A request whose first five bytes are not the token is cut into the same fields.\<close>

definition forged_text :: "string list \<Rightarrow> string" where
  "forged_text fs = ''xxxxx'' @ join_tokens SPACE3 fs"

lemma take_forged [simp]: "take TOKEN_LENGTH (forged_text fs @ r) = ''xxxxx''"
  by (simp add: forged_text_def TOKEN_LENGTH_def)

lemma forged_no_token: "\<not> shows_token (xor_text (forged_text fs @ r))"
  by (simp add: shows_token_def TOKEN_STR_def del: take_append)

lemma forged_fields: "sendable fs \<Longrightarrow> split_tokens SPACE3 (drop TOKEN_LENGTH (forged_text fs)) = fs"
  using request_fields [of fs] by (simp add: forged_text_def request_text_def TOKEN_LENGTH_def TOKEN_STR_def)

lemma forged_clean: "sendable fs \<Longrightarrow> clean_token CRLF (forged_text fs)"
  using set_join_tokens [of SPACE3 fs]
  by (intro clean_token_hd) (auto simp: sendable_def list_all_iff forged_text_def SPACE3_def CRLF_def)

lemma serve_forged:
  assumes "sendable fs"
  shows "serve_chunk api peer fd (forged_text fs @ CRLF) s = run_command api peer fd fs s"
proof -
  obtain f gs where fs: "fs = f # gs" using assms by (cases fs) (auto simp: sendable_def)
  have "find_str CRLF (forged_text fs @ CRLF @ []) \<noteq> None" by (simp only: sublist_framed not_False_eq_True)
  moreover have "forged_text fs @ CRLF = (''xxxxx'' @ f) @ SPACE3 @ (join_tokens SPACE3 gs @ CRLF)"
    by (simp add: forged_text_def fs)
  then have "find_str SPACE3 (forged_text fs @ CRLF) \<noteq> None" by (simp only: sublist_framed not_False_eq_True)
  moreover have "split_tokens CRLF (join_tokens CRLF [forged_text fs] @ []) = [forged_text fs] @ split_tokens CRLF []"
    by (rule split_tokens_join) (use forged_clean [OF assms] in auto)
  moreover have "find_str CRLF [] = None" by (simp add: CRLF_def)
  ultimately show ?thesis
    using forged_fields [OF assms]
    by (auto simp: serve_chunk_def FindCRLF_def FindSPACE_def process_message_def split_tokens_absent bindE_def split: sum.splits)
qed

text \<open>All sockets that were dispatched have been taken up.\<close>

definition idle_pool :: "nat \<Rightarrow> CWorkerThread \<Rightarrow> bool" where
  "idle_pool k w \<longleftrightarrow> (\<exists>ds served. pool_rel k ds served w) \<and> (\<forall>i<k. queue_of w i = [])"

lemma fresh_pool_idle: "fresh_pool k w \<Longrightarrow> idle_pool k w"
  using fresh_pool_rel [of k w] by (auto simp: idle_pool_def fresh_pool_def queue_of_def empty_list_def)

lemma connect_worker:
  assumes "idle_pool k w" and "unat n = k" and "0 < k" and "int k \<le> INT_MAX"
  shows "\<exists>w1 tid w2. DispatchSfdToWorker n True fd w = Inr w1 \<and> tid < length (vec_libevent_thread w1) \<and>
    read_notify tid w1 = (Some \<lparr>ci_sfd = fd\<rparr>, w2) \<and> idle_pool k w2"
proof -
  obtain ds served where rel: "pool_rel k ds served w" and idle: "\<forall>i<k. queue_of w i = []"
    using assms(1) by (auto simp: idle_pool_def)
  let ?i = "length ds mod k" and ?v = "vec_libevent_thread w"
  have i: "?i < k" "length ?v = k" using rel assms(3) by (simp_all add: pool_rel_def)
  obtain w1 where w1: "DispatchSfdToWorker n True fd w = Inr w1" "pool_rel k (ds @ [fd]) served w1"
    using Dispatch_result [OF rel assms(2-4)] by blast
  with Dispatch_exact [OF rel assms(2-4), of True fd]
  have vec: "vec_libevent_thread w1 = ?v[?i := queued True fd (?v ! ?i)]" by auto
  have empty: "ts_list (list_conn (?v ! j)) = []" if "j < k" for j using idle that by (auto simp: queue_of_def)
  obtain c w2 where n: "read_notify ?i w1 = (c, w2)" by fastforce
  then have c: "c = Some \<lparr>ci_sfd = fd\<rparr>" and w2: "vec_libevent_thread w2 ! ?i = (queued True fd (?v ! ?i))\<lparr>
      pipe_len := pipe_len (?v ! ?i), list_conn := \<lparr>ts_list = []\<rparr>\<rparr>"
      "\<And>j. j < k \<Longrightarrow> j \<noteq> ?i \<Longrightarrow> vec_libevent_thread w2 ! j = ?v ! j"
    using i empty [OF i(1)] by (auto simp: read_notify_def vec pop_front_def Let_def)
  have "queue_of w2 j = []" if "j < k" for j
    using that w2 empty [OF that] by (cases "j = ?i") (auto simp: queue_of_def)
  moreover have "pool_rel k (ds @ [fd]) (served @ served_by ?i c) w2"
    using read_notify_result [OF w1(2) i(1)] n by simp
  ultimately have "idle_pool k w2" unfolding idle_pool_def by blast
  with w1(1) n c i vec show ?thesis by (intro exI [of _ w1] exI [of _ ?i] exI [of _ w2]) simp
qed

text \<open>A client connects and has its object.\<close>

lemma intruder_connects:
  assumes "idle_pool k (worker_thread (master s))" and "unat (thread_num g) = k" and "0 < k" and "int k \<le> INT_MAX"
    and "fd \<noteq> 0" and "fd \<noteq> - 1" and "store_inv (conns s)" and "fresh_env env (conns s)" and "\<not> isVerify (junk env)"
    and "heartbeat env = client_heartbeat_timeout g"
    and "\<And>tid. \<exists>a st. InitNewConn env fd tid (conns s) = Inr (Some a, st)"
  shows "\<exists>t tid a. (intruder_step True api peer g)\<^sup>+\<^sup>+ s t \<and> idle_pool k (worker_thread (master t)) \<and>
    InitNewConn env fd tid (conns s) = Inr (Some a, conns t) \<and> sio t = sio s"
proof -
  obtain w1 tid w2 where w: "DispatchSfdToWorker (thread_num g) True fd (worker_thread (master s)) = Inr w1"
    "tid < length (vec_libevent_thread w1)" "read_notify tid w1 = (Some \<lparr>ci_sfd = fd\<rparr>, w2)" "idle_pool k w2"
    using connect_worker [OF assms(1-4)] by blast
  obtain a st where new: "InitNewConn env fd tid (conns s) = Inr (Some a, st)" using assms(11) by blast
  let ?acc = "\<lparr>accepted_fd = fd, getfl = 2, setfl = \<lambda>_. 0, notify_wrote = True\<rparr>"
  let ?s1 = "s\<lparr>master := (master s)\<lparr>worker_thread := w1\<rparr>\<rparr>"
  let ?s2 = "?s1\<lparr>master := (master ?s1)\<lparr>worker_thread := w2\<rparr>, conns := st\<rparr>"
  have "AccepCb ?acc (thread_num g) (master s) = Inr ((master s)\<lparr>worker_thread := w1\<rparr>)"
    using w(1) assms(6) by (simp add: AccepCb_def SetSocketNoBlock_def)
  from intruder_step.accept [OF this] have "intruder_step True api peer g s ?s1" .
  moreover have "ReadPipeCb env tid (worker_thread (master ?s1), conns ?s1) = Inr (w2, st)"
    using w(3) assms(5) new by (simp add: ReadPipeCb_def)
  then have "intruder_step True api peer g ?s1 ?s2"
    by (intro intruder_step.notify) (use w(2) assms(8-10) in simp_all)
  ultimately have "(intruder_step True api peer g)\<^sup>+\<^sup>+ s ?s2" by (rule tranclp.trancl_into_trancl [OF tranclp.r_into_trancl])
  then show ?thesis
    using w(4) new by (intro exI [of _ ?s2] exI [of _ tid] exI [of _ a]) simp
qed

text \<open>The refused connection: nothing happens but that its marked object is on top of the pool.\<close>

lemma refused_pooled:
  assumes "store_inv st" and "live st bev = Some x" and "heap st (cbarg x) = Some c" and "\<not> isVerify c"
    and "TOKEN_LENGTH \<le> length chunk" and "\<not> shows_token chunk" and "length (pool_stack (pool st)) < POOL_MAX"
  shows "\<exists>st'. start_routine api peer bev (cbarg x) chunk (st, r) = Inr (st', r) \<and> store_inv st' \<and>
    live st' = (live st)(bev := None) \<and> heap st' (cbarg x) = Some (c\<lparr>isVerify := True\<rparr>) \<and>
    (\<forall>a. heap st' a = None \<longleftrightarrow> heap st a = None) \<and> pool_stack (pool st') = cbarg x # pool_stack (pool st)"
proof -
  let ?st = "st\<lparr>heap := (heap st)(cbarg x \<mapsto> c\<lparr>isVerify := True\<rparr>)\<rparr>"
  have inv: "store_inv ?st"
    using assms(1,3) unfolding store_inv_def by (auto split: if_splits)
  obtain st' where close: "CloseConn (cbarg x) bev ?st = Inr st'"
    using CloseConn_total [OF inv, of "cbarg x" bev] assms(7) by auto
  have "live ?st bev = Some x" using assms(2) by simp
  from CloseConn_result [OF inv this refl close] close assms(3-6) show ?thesis
    by (auto simp: start_routine_def Let_def shows_token_def)
qed

text \<open>The connection after it: its first bytes are served.\<close>

lemma recycled_serves:
  assumes "store_inv st" and "pool_stack (pool st) = a # ps" and "heap st a = Some c" and "isVerify c"
    and "fresh_env env st" and "InitNewConn env fd tid st = Inr (Some a', st')" and "sendable fs"
    and "run_command api peer fd fs r = Inr r'"
  shows "\<exists>b x. live st' b = Some x \<and>
    start_routine api peer b (cbarg x) (xor_text (forged_text fs @ CRLF)) (st', r) = Inr (st', r')"
proof -
  from InitNewConn_result [OF assms(1,5,6)] assms(2,3) obtain b where
    b: "live st' = (live st)(b \<mapsto> \<lparr>cbarg = a, read_timeout = heartbeat env\<rparr>)" and
    new: "heap st' a = Some (init_fields fd tid c)" "a' = a"
    by auto
  from b have "live st' b = Some \<lparr>cbarg = a, read_timeout = heartbeat env\<rparr>" by simp
  moreover have "start_routine api peer b a (xor_text (forged_text fs @ CRLF)) (st', r) = Inr (st', r')"
    using new(1) assms(4,7,8) by (simp add: start_routine_def Let_def serve_forged init_fields_def)
  ultimately show ?thesis by fastforce
qed

text \<open>The first client of a fresh server has a new object, not marked.\<close>

lemma first_connection:
  assumes "fresh_pool k (worker_thread m)" and "unat (thread_num g) = k" and "0 < k" and "int k \<le> INT_MAX"
    and "fd \<noteq> (0 :: int)" and "fd \<noteq> - 1"
  shows "\<exists>s tid c. (intruder_step True api peer g)\<^sup>+\<^sup>+ (start_state m fl r) s \<and> idle_pool k (worker_thread (master s)) \<and>
    sio s = r \<and> store_inv (conns s) \<and>
    live (conns s) = [1 \<mapsto> \<lparr>cbarg = 1, read_timeout = client_heartbeat_timeout g\<rparr>] \<and>
    heap (conns s) = [1 \<mapsto> init_fields fd tid c] \<and> \<not> isVerify c"
proof -
  let ?s0 = "start_state m fl r"
  let ?env = "example_env\<lparr>heartbeat := client_heartbeat_timeout g\<rparr>"
  have s0: "conns ?s0 = start_store fl" "sio ?s0 = r" "idle_pool k (worker_thread (master ?s0))"
    using fresh_pool_idle [OF assms(1)] by (simp_all add: start_state_def)
  have fresh: "fresh_env ?env (start_store fl)" "plenty ?env" "\<not> isVerify (junk ?env)"
    by (simp_all add: fresh_env_def plenty_def example_env_def example_conn_def)
  from InitNewConn_total [OF start_store_inv fresh(1,2)]
  have "\<exists>a st. InitNewConn ?env fd tid (conns ?s0) = Inr (Some a, st)" for tid by (simp add: s0)
  note con = intruder_connects [OF s0(3) assms(2-6) _ _ fresh(3) _ this, of api peer, unfolded s0]
  have "heartbeat ?env = client_heartbeat_timeout g" by simp
  from con [OF start_store_inv fresh(1) this]
  obtain s tid a where s: "(intruder_step True api peer g)\<^sup>+\<^sup>+ ?s0 s" "idle_pool k (worker_thread (master s))" "sio s = r"
      "InitNewConn ?env fd tid (start_store fl) = Inr (Some a, conns s)"
    by blast
  from InitNewConn_result [OF start_store_inv fresh(1) s(4)] obtain c where
    new: "store_inv (conns s)" "live (conns s) = [1 \<mapsto> \<lparr>cbarg = a, read_timeout = client_heartbeat_timeout g\<rparr>]"
      "heap (conns s) a = Some (init_fields fd tid c)" "\<not> isVerify c" "a = 1"
    using fresh(3) by (auto simp: example_env_def)
  have "heap (conns s) a' = None" if "a' \<noteq> a" for a'
    using InitNewConn_frame [OF s(4) start_store_inv fresh(1) that] by simp
  then have "heap (conns s) = [1 \<mapsto> init_fields fd tid c]" using new(3,5) by (auto simp: fun_eq_iff)
  with s(1-3) new show ?thesis by blast
qed

text \<open>After it was refused, the pool holds its object, marked, and nobody is connected.\<close>

lemma intruder_plants:
  assumes "fresh_pool k (worker_thread m)" and "unat (thread_num g) = k" and "0 < k" and "int k \<le> INT_MAX"
    and "fd \<noteq> (0 :: int)" and "fd \<noteq> - 1"
  shows "\<exists>s a c. (intruder_step True api peer g)\<^sup>+\<^sup>+ (start_state m fl r) s \<and> idle_pool k (worker_thread (master s)) \<and>
    store_inv (conns s) \<and> live (conns s) = (\<lambda>_. None) \<and> pool_stack (pool (conns s)) = [a] \<and>
    heap (conns s) a = Some c \<and> isVerify c \<and> heap (conns s) 2 = None \<and> sio s = r"
proof -
  let ?step = "intruder_step True api peer g"
  let ?x = "\<lparr>cbarg = 1, read_timeout = client_heartbeat_timeout g\<rparr>"
  obtain t1 tid c where t1: "?step\<^sup>+\<^sup>+ (start_state m fl r) t1" "idle_pool k (worker_thread (master t1))" "sio t1 = r"
      "store_inv (conns t1)" "live (conns t1) = [1 \<mapsto> ?x]" "heap (conns t1) = [1 \<mapsto> init_fields fd tid c]" "\<not> isVerify c"
    using first_connection [OF assms, of api peer fl r] by blast
  have live: "live (conns t1) 1 = Some ?x" using t1(5) by simp
  from store_inv_owners(2) [OF t1(4) this] have "1 \<notin> set (pool_stack (pool (conns t1)))" by simp
  moreover have "set (pool_stack (pool (conns t1))) \<subseteq> {1}" using store_inv_owners(1) [OF t1(4)] t1(6) by simp
  from subset_singletonD [OF this] have "set (pool_stack (pool (conns t1))) = {} \<or> 1 \<in> set (pool_stack (pool (conns t1)))"
    by (elim disjE) simp_all
  ultimately have "set (pool_stack (pool (conns t1))) = {}" by simp
  then have none: "pool_stack (pool (conns t1)) = []" by simp
  have bad: "\<not> shows_token (xor_text ''xxxxx'')" by (simp add: shows_token_def TOKEN_LENGTH_def TOKEN_STR_def)
  have "\<not> isVerify (init_fields fd tid c)" using t1(7) by (simp add: init_fields_def)
  with bad obtain st2 where st2: "start_routine api peer 1 (cbarg ?x) (xor_text ''xxxxx'') (conns t1, r) = Inr (st2, r)"
      "store_inv st2" "live st2 = (live (conns t1))(1 := None)" "pool_stack (pool st2) = [1]"
      "heap st2 1 = Some ((init_fields fd tid c)\<lparr>isVerify := True\<rparr>)" "heap st2 2 = None"
    using refused_pooled [OF t1(4) live, of "init_fields fd tid c" "xor_text ''xxxxx''" api peer r] t1(6) none
    by (auto simp: TOKEN_LENGTH_def POOL_MAX_def)
  have "?step t1 (t1\<lparr>conns := st2, sio := r\<rparr>)"
    by (rule intruder_step.data [OF live]) (use st2(1) t1(3) bad in \<open>simp_all add: BUFSIZE_def\<close>)
  with t1(1) have "?step\<^sup>+\<^sup>+ (start_state m fl r) (t1\<lparr>conns := st2, sio := r\<rparr>)" by (rule tranclp.trancl_into_trancl)
  then show ?thesis
    by (intro exI conjI) (assumption, use t1(2,5) st2(2-6) in auto)
qed

subsection \<open>Properties\<close>



text \<open>
  C2. With reuse the token check does not hold.  From a freshly started server with any
  number of workers, a client without the token gets any well formed request executed with two
  connections: the first one is refused and leaves its object marked, the second one is given
  that object, whichever worker serves it.
\<close>

theorem intruder_executes:
  assumes "fresh_pool k (worker_thread m)" and "unat (thread_num g) = k" and "0 < k" and "int k \<le> INT_MAX"
    and "fd \<noteq> 0" and "fd \<noteq> - 1" and "sendable fs" and "length (forged_text fs @ CRLF) \<le> BUFSIZE"
    and "run_command api peer fd fs r = Inr r'"
  shows "\<exists>s. (intruder_step True api peer g)\<^sup>+\<^sup>+ (start_state m fl r) s \<and> sio s = r'"
proof -
  let ?step = "intruder_step True api peer g"
  let ?env = "example_env\<lparr>heartbeat := client_heartbeat_timeout g, new_conn := Some 2\<rparr>"
  obtain s a c where s: "?step\<^sup>+\<^sup>+ (start_state m fl r) s" "idle_pool k (worker_thread (master s))"
      "store_inv (conns s)" "live (conns s) = (\<lambda>_. None)" "pool_stack (pool (conns s)) = [a]"
      "heap (conns s) a = Some c" "isVerify c" "heap (conns s) 2 = None" "sio s = r"
    using intruder_plants [OF assms(1-6), of api peer fl r] by blast
  have env: "fresh_env ?env (conns s)" "plenty ?env" "\<not> isVerify (junk ?env)"
    using s(4,8) by (simp_all add: fresh_env_def plenty_def example_env_def example_conn_def)
  from intruder_connects [OF s(2) assms(2-6) s(3) env(1,3) _ InitNewConn_total [OF s(3) env(1,2)], of api peer]
  obtain t tid b where t: "?step\<^sup>+\<^sup>+ s t" "InitNewConn ?env fd tid (conns s) = Inr (Some b, conns t)" "sio t = r"
    using s(9) by auto
  from recycled_serves [OF s(3,5,6,7) env(1) t(2) assms(7,9)] obtain bev y where
    y: "live (conns t) bev = Some y"
      "start_routine api peer bev (cbarg y) (xor_text (forged_text fs @ CRLF)) (conns t, r) = Inr (conns t, r')" by auto
  have "?step t (t\<lparr>conns := conns t, sio := r'\<rparr>)"
    by (rule intruder_step.data [OF y(1)]) (use y(2) t(3) assms(8) forged_no_token in simp_all)
  from tranclp.trancl_into_trancl [OF tranclp_trans [OF s(1) t(1)] this]
  have "?step\<^sup>+\<^sup>+ (start_state m fl r) (t\<lparr>sio := r'\<rparr>)" by simp
  then show ?thesis by (intro exI [of _ "t\<lparr>sio := r'\<rparr>"]) simp
qed

theorem intruder_executes_witness:
  "\<exists>s. (intruder_step True (recording_api []) local_peer (small_settings\<lparr>thread_num := 2\<rparr>))\<^sup>+\<^sup>+
      (start_state (new_master\<lparr>worker_thread := two_workers\<rparr>) static_freelist idle_io) s \<and>
    dbs (sio s) = [sql_delete_user '''']"
proof -
  let ?m = "new_master\<lparr>worker_thread := two_workers\<rparr>"
  let ?g = "small_settings\<lparr>thread_num := 2\<rparr>"
  have fresh: "fresh_pool 2 (worker_thread ?m)" by (simp add: fresh_pool_def two_workers_def new_thread_def)
  have g: "unat (thread_num ?g) = 2" "0 < (2 :: nat)" "int 2 \<le> INT_MAX" by (simp_all add: INT_MAX_def)
  have "sendable [''4'', ''x'', ''y'']" "length (forged_text [''4'', ''x'', ''y''] @ CRLF) \<le> BUFSIZE"
    "run_command (recording_api []) local_peer 10 [''4'', ''x'', ''y''] idle_io = Inr (idle_io\<lparr>dbs := [sql_delete_user '''']\<rparr>)"
    by code_simp+
  from intruder_executes [OF fresh g _ _ this, of static_freelist] show ?thesis by fastforce
qed

end
