(* ===== verification/Deploy.thy ===== *)
theory Deploy
  imports Reload
begin

section \<open>RRMode.cpp: the program as a whole, from its file to a request and to a reload\<close>

text \<open>
  The steps of \<open>main\<close> and what comes after them, put together: the configuration file, the
  settings, the listening socket and the workers, the first request, the first SIGUSR1.
  Between start and reload stands \<open>daemon(0, 0)\<close>, which by its documentation makes \<open>/\<close> the
  working directory of the process when its first argument is 0.
\<close>

definition after_daemon :: "path_env \<Rightarrow> path_env" where
  "after_daemon env = env\<lparr>cwd := Some ''/''\<rparr>"

text \<open>The file \<open>conf/config.ini\<close> of the repository.\<close>

definition config_ini :: string where
  "config_ini = ''remote.listen.port=8889'' @ [NL] @ ''worker.thread.num = 4'' @ [NL] @
     ''client.heartbeat.timeout.s = 120'' @ [NL]"

lemma config_ini_loads:
  "snd (load_config (open_stream config_ini) empty_config) = empty_config\<lparr>myContents :=
     [(''client.heartbeat.timeout.s'', ''120''), (''remote.listen.port'', ''8889''), (''worker.thread.num'', ''4'')]\<rparr>"
  by code_simp

lemma config_ini_numbers: "string_as_int ''8889'' = Inr 8889" "string_as_int ''4'' = Inr 4" "string_as_int ''120'' = Inr 120"
  by code_simp+

lemma config_ini_settings:
  assumes "cwd env = Some dir" and "files env (dir @ CONF_FILE) = Some config_ini" and "config p = empty_config"
  shows "\<exists>p1 p2. InitConfigure env p = Inr p1 \<and> SettingsAndPrint p1 = Inr p2 \<and>
    settings p2 = \<lparr>remote_listen_port = 8889, thread_num = 4, client_heartbeat_timeout = 120\<rparr>"
proof -
  define cf where "cf = snd (load_config (open_stream config_ini) empty_config)"
  have "InitConfigure env p = Inr (p\<lparr>config := cf\<rparr>)"
    using assms by (simp add: InitConfigure_def GetCurrentPath_def LoadConfiguration_def cf_def)
  moreover have "SettingsAndPrint (p\<lparr>config := cf\<rparr>) = Inr (p\<lparr>config := cf, settings :=
      \<lparr>remote_listen_port = 8889, thread_num = 4, client_heartbeat_timeout = 120\<rparr>\<rparr>)"
    by (simp add: SettingsAndPrint_def read_default_def cf_def config_ini_loads config_ini_numbers)
  ultimately show ?thesis by auto
qed

subsection \<open>Properties\<close>


text \<open>With the file of the repository: port 8889 and four workers.\<close>

definition repo_main :: main_env where
  "repo_main = \<lparr>paths = \<lparr>cwd = Some ''/srv'', files = (\<lambda>_. None)(''/srv'' @ CONF_FILE := Some config_ini)\<rparr>,
     net = good_net, daemon_result = 0, signal_ok = True, dispatch_result = 0\<rparr>"


text \<open>
  C14. A reload does not find the file of the start.  \<open>InitConfigure\<close> takes the working
  directory, and \<open>daemon\<close> has changed it to \<open>/\<close>.  So when the start read the file below its
  own directory and there is none below \<open>/\<close>, the first SIGUSR1 ends the server with status 1;
  no reload ever changes a setting.
\<close>

theorem reload_after_daemon:
  assumes "cwd env = Some dir" and "files env (dir @ CONF_FILE) = Some t" and "files env (''/'' @ CONF_FILE) = None"
  shows "(\<exists>p'. InitConfigure env p = Inr p') \<and>
    SigUsr (after_daemon env) SIGUSR1 q = Inr (Inl EXIT_FAILURE) \<and>
    ((running_step api peer (after_daemon env))\<^sup>*\<^sup>* s s' \<longrightarrow> settings (proc s') = settings (proc s))"
proof -
  have exits: "SigUsr (after_daemon env) SIGUSR1 q = Inr (Inl EXIT_FAILURE)" for q
    using assms(3) by (simp add: SigUsr_def after_daemon_def InitConfigure_def GetCurrentPath_def LoadConfiguration_def)
  have "settings (proc s') = settings (proc s)" if "(running_step api peer (after_daemon env))\<^sup>*\<^sup>* s s'"
    using that by (induction rule: rtranclp_induct) (auto elim!: running_stepE simp: exits)
  then show ?thesis
    using assms(1,2) exits by (auto simp: InitConfigure_def GetCurrentPath_def LoadConfiguration_def)
qed

theorem reload_after_daemon_witness:
  "(\<exists>p'. InitConfigure (paths repo_main) demo_process = Inr p') \<and>
   SigUsr (after_daemon (paths repo_main)) SIGUSR1 demo_process = Inr (Inl 1)"
  using reload_after_daemon [of "paths repo_main" "''/srv''" config_ini demo_process demo_process "recording_api []"]
  by (simp add: repo_main_def EXIT_FAILURE_def)

end
