(* ===== verification/Signals.thy ===== *)
theory Signals
  imports Callbacks Intruder Deploy
begin

section \<open>RRMode.cpp: signals that interrupt the callbacks\<close>

text \<open>
  A signal is taken by any thread of the process, between any two of its actions; the thread
  then runs the handler and goes on with its callback when the handler returns.  The other
  threads do not stop.  The handlers are cut at every access to what the callbacks use too: the
  three settings are written one after the other, and the printer is deleted, its pointer set
  to NULL, the process ended.  A signal is masked only in the thread that handles it, so two
  threads may be inside the same handler.

  \<open>handling\<close> says where each thread stands in a handler (\<open>None\<close> is the master thread), \<open>freed\<close> that
  the printer has been deleted, \<open>printer_set\<close> that the pointer is not NULL.
\<close>

datatype handler =
    NoSignal
  | Loaded
  | PortSet
  | WorkersSet
  | Deleting
  | Clearing
  | Exiting

datatype ending = Exited int | Crashed fault

record 'db signalled =
  threads :: "'db tserver"
  sproc :: process
  freed :: bool
  handling :: "nat option \<Rightarrow> handler"
  ended :: "ending option"

text \<open>What the request handler finds when it follows the pointer.\<close>

definition printer_fault :: "'db signalled \<Rightarrow> fault option" where
  "printer_fault s = (if \<not> printer_set (sproc s) then Some NullDereference
     else if freed s then Some UseAfterFree else None)"

text \<open>The messages for which \<open>start_routine\<close> follows it.\<close>

definition uses_printer :: "string \<Rightarrow> bool" where
  "uses_printer msg \<longleftrightarrow>
     (let vec_command = split_tokens SPACE3 (drop TOKEN_LENGTH msg)
      in (length vec_command = 6 \<or> length vec_command = 3) \<and> atoi (vec_command ! 0) \<in> {1, 2, 3, 4})"

definition at_printer :: "'db signalled \<Rightarrow> nat option \<Rightarrow> bool" where
  "at_printer s i \<longleftrightarrow> (\<exists>j b a m ms. i = Some j \<and> busy (threads s) j = Serving b a (m # ms) \<and> uses_printer m)"

lemma uses_no_printer: "\<not> uses_printer msg \<Longrightarrow> process_message api peer fd msg s = case_default fd s"
  by (auto simp: uses_printer_def process_message_def run_command_def Let_def)

text \<open>The settings, one assignment after the other.\<close>

definition set_port :: "process \<Rightarrow> process outcome" where
  "set_port p = bindE (read_default string_as_int ''remote.listen.port'' 12006 (config p)) (\<lambda>v.
     Inr (p\<lparr>settings := (settings p)\<lparr>remote_listen_port := v\<rparr>\<rparr>))"

definition set_workers :: "process \<Rightarrow> process outcome" where
  "set_workers p = bindE (read_default string_as_int ''worker.thread.num'' 4 (config p)) (\<lambda>v.
     Inr (p\<lparr>settings := (settings p)\<lparr>thread_num := word_of_int v\<rparr>\<rparr>))"

definition set_timeout :: "process \<Rightarrow> process outcome" where
  "set_timeout p = bindE (read_default string_as_int ''client.heartbeat.timeout.s'' 70 (config p)) (\<lambda>v.
     Inr (p\<lparr>settings := (settings p)\<lparr>client_heartbeat_timeout := v\<rparr>\<rparr>))"

lemma settings_one_by_one:
  "SettingsAndPrint p = bindE (set_port p) (\<lambda>p1. bindE (set_workers p1) set_timeout)"
  by (cases p)
    (auto simp: SettingsAndPrint_def set_port_def set_workers_def set_timeout_def bindE_def split: sum.splits)

text \<open>The actions of one handler; the action of thread \<open>i\<close> that ends the process has \<open>ended\<close>.\<close>

inductive handler_step :: "'db mysql_api \<Rightarrow> path_env \<Rightarrow> nat option \<Rightarrow> 'db signalled \<Rightarrow> 'db signalled \<Rightarrow> bool"
  for api env i where
  usr: "handling s i = NoSignal \<Longrightarrow> InitConfigure env (sproc s) = Inr p \<Longrightarrow>
    handler_step api env i s (s\<lparr>sproc := p, handling := (handling s)(i := Loaded)\<rparr>)"
| usr_exit: "handling s i = NoSignal \<Longrightarrow> InitConfigure env (sproc s) = Inl n \<Longrightarrow>
    handler_step api env i s (s\<lparr>ended := Some (Exited n)\<rparr>)"
| port: "handling s i = Loaded \<Longrightarrow> set_port (sproc s) = Inr p \<Longrightarrow>
    handler_step api env i s (s\<lparr>sproc := p, handling := (handling s)(i := PortSet)\<rparr>)"
| workers: "handling s i = PortSet \<Longrightarrow> set_workers (sproc s) = Inr p \<Longrightarrow>
    handler_step api env i s (s\<lparr>sproc := p, handling := (handling s)(i := WorkersSet)\<rparr>)"
| timeout: "handling s i = WorkersSet \<Longrightarrow> set_timeout (sproc s) = Inr p \<Longrightarrow>
    handler_step api env i s (s\<lparr>sproc := p, handling := (handling s)(i := NoSignal)\<rparr>)"
| terminate: "handling s i \<notin> {Deleting, Clearing, Exiting} \<Longrightarrow>
    handler_step api env i s (s\<lparr>handling := (handling s)(i := if printer_set (sproc s) then Deleting else Exiting)\<rparr>)"
| delete: "handling s i = Deleting \<Longrightarrow> printer_fault s = None \<Longrightarrow>
    handler_step api env i s (s\<lparr>freed := True, handling := (handling s)(i := Clearing),
      threads := (threads s)\<lparr>sio := (sio (threads s))\<lparr>dbs := CloseMySQLConn api (dbs (sio (threads s)))\<rparr>\<rparr>\<rparr>)"
| delete_null: "handling s i = Deleting \<Longrightarrow> printer_fault s = Some NullDereference \<Longrightarrow>
    handler_step api env i s (s\<lparr>handling := (handling s)(i := Clearing)\<rparr>)"
| delete_again: "handling s i = Deleting \<Longrightarrow> printer_fault s = Some UseAfterFree \<Longrightarrow>
    handler_step api env i s (s\<lparr>ended := Some (Crashed InvalidFree)\<rparr>)"
| clear: "handling s i = Clearing \<Longrightarrow>
    handler_step api env i s (s\<lparr>sproc := (sproc s)\<lparr>printer_set := False\<rparr>, handling := (handling s)(i := Exiting)\<rparr>)"
| quit: "handling s i = Exiting \<Longrightarrow> handler_step api env i s (s\<lparr>ended := Some (Exited 0)\<rparr>)"

inductive_cases handler_stepE: "handler_step api env i s s'"

text \<open>
  The process: the callbacks of the threads that are not in a handler, and the handlers, until
  it ends.  A thread whose next action follows the pointer to a printer that is gone crashes it.
\<close>

inductive signal_step ::
  "'db mysql_api \<Rightarrow> (int \<Rightarrow> in_addr) \<Rightarrow> path_env \<Rightarrow> 'db signalled \<Rightarrow> 'db signalled \<Rightarrow> bool"
  for api peer env where
  callback: "ended s = None \<Longrightarrow> handling s i = NoSignal \<Longrightarrow> \<not> at_printer s i \<or> printer_fault s = None \<Longrightarrow>
    thread_callback api peer (settings (sproc s)) i (threads s) t \<Longrightarrow>
    signal_step api peer env s (s\<lparr>threads := t\<rparr>)"
| crash: "ended s = None \<Longrightarrow> handling s i = NoSignal \<Longrightarrow> at_printer s i \<Longrightarrow> printer_fault s = Some f \<Longrightarrow>
    signal_step api peer env s (s\<lparr>ended := Some (Crashed f)\<rparr>)"
| handler: "ended s = None \<Longrightarrow> handler_step api env i s s' \<Longrightarrow> signal_step api peer env s s'"

inductive_cases signal_stepE: "signal_step api peer env s s'"

definition signal_start :: "CMasterThread \<Rightarrow> freelist \<Rightarrow> 'db io \<Rightarrow> process \<Rightarrow> 'db signalled" where
  "signal_start m fl r p = \<lparr>threads = threads_start m fl r, sproc = p, freed = False,
     handling = (\<lambda>_. NoSignal), ended = None\<rparr>"

subsection \<open>The handlers, uninterrupted, are the handlers of the model\<close>

text \<open>A handler that runs without anything in between, up to the end of the process.\<close>

definition alone :: "'db mysql_api \<Rightarrow> path_env \<Rightarrow> nat option \<Rightarrow> 'db signalled \<Rightarrow> 'db signalled \<Rightarrow> bool" where
  "alone api env i s s' \<longleftrightarrow> ended s = None \<and> handler_step api env i s s'"

lemma four_steps: "r a b \<Longrightarrow> r b c \<Longrightarrow> r c d \<Longrightarrow> r d e \<Longrightarrow> r\<^sup>*\<^sup>* a e"
  by (auto intro: rtranclp.rtrancl_into_rtrancl)

lemma usr_run:
  assumes "SigUsr env SIGUSR1 (sproc s) = Inr (Inr p)" and "handling s i = NoSignal" and "ended s = None"
  shows "(alone api env i)\<^sup>*\<^sup>* s (s\<lparr>sproc := p\<rparr>)"
proof -
  obtain p1 where p1: "InitConfigure env (sproc s) = Inr p1" "SettingsAndPrint p1 = Inr p"
    using assms(1) by (auto simp: SigUsr_def split: sum.splits)
  then obtain p2 p3 where p: "set_port p1 = Inr p2" "set_workers p2 = Inr p3" "set_timeout p3 = Inr p"
    by (auto simp: settings_one_by_one)
  define s1 where "s1 = s\<lparr>sproc := p1, handling := (handling s)(i := Loaded)\<rparr>"
  define s2 where "s2 = s1\<lparr>sproc := p2, handling := (handling s1)(i := PortSet)\<rparr>"
  define s3 where "s3 = s2\<lparr>sproc := p3, handling := (handling s2)(i := WorkersSet)\<rparr>"
  have "alone api env i s s1" using handler_step.usr [OF assms(2) p1(1)] assms(3) by (simp add: alone_def s1_def)
  moreover have "alone api env i s1 s2"
    using handler_step.port [of s1 i] p(1) assms(3) by (simp add: alone_def s1_def s2_def)
  moreover have "alone api env i s2 s3"
    using handler_step.workers [of s2 i] p(2) assms(3) by (simp add: alone_def s1_def s2_def s3_def)
  moreover have "alone api env i s3 (s3\<lparr>sproc := p, handling := (handling s3)(i := NoSignal)\<rparr>)"
    using handler_step.timeout [of s3 i] p(3) assms(3) by (simp add: alone_def s1_def s2_def s3_def)
  ultimately have "(alone api env i)\<^sup>*\<^sup>* s (s3\<lparr>sproc := p, handling := (handling s3)(i := NoSignal)\<rparr>)"
    by (rule four_steps)
  moreover have "(handling s)(i := NoSignal) = handling s" using assms(2) by auto
  ultimately show ?thesis by (simp add: s3_def s2_def s1_def)
qed

lemma terminate_run:
  assumes "sig_term api SIGTERM (sproc s) (dbs (sio (threads s))) = (Some n, p, db)" and "\<not> freed s"
    and "handling s i \<notin> {Deleting, Clearing, Exiting}" and "ended s = None"
  shows "\<exists>t. (alone api env i)\<^sup>*\<^sup>* s t \<and> ended t = Some (Exited n) \<and> sproc t = p \<and> dbs (sio (threads t)) = db"
proof (cases "printer_set (sproc s)")
  case False
  define s1 where "s1 = s\<lparr>handling := (handling s)(i := Exiting)\<rparr>"
  have "alone api env i s s1" using handler_step.terminate [OF assms(3)] False assms(4) by (simp add: alone_def s1_def)
  moreover have "alone api env i s1 (s1\<lparr>ended := Some (Exited 0)\<rparr>)"
    using handler_step.quit [of s1 i] assms(4) by (simp add: alone_def s1_def)
  ultimately have "(alone api env i)\<^sup>*\<^sup>* s (s1\<lparr>ended := Some (Exited 0)\<rparr>)"
    by (auto intro: rtranclp.rtrancl_into_rtrancl)
  moreover have "ended (s1\<lparr>ended := Some (Exited 0)\<rparr>) = Some (Exited n)" "sproc (s1\<lparr>ended := Some (Exited 0)\<rparr>) = p"
    "dbs (sio (threads (s1\<lparr>ended := Some (Exited 0)\<rparr>))) = db"
    using assms(1) False by (simp_all add: sig_term_def s1_def)
  ultimately show ?thesis by blast
next
  case True
  define s1 where "s1 = s\<lparr>handling := (handling s)(i := Deleting)\<rparr>"
  define s2 where "s2 = s1\<lparr>freed := True, handling := (handling s1)(i := Clearing),
      threads := (threads s1)\<lparr>sio := (sio (threads s1))\<lparr>dbs := CloseMySQLConn api (dbs (sio (threads s1)))\<rparr>\<rparr>\<rparr>"
  define s3 where "s3 = s2\<lparr>sproc := (sproc s2)\<lparr>printer_set := False\<rparr>, handling := (handling s2)(i := Exiting)\<rparr>"
  define s4 where "s4 = s3\<lparr>ended := Some (Exited 0)\<rparr>"
  have "alone api env i s s1" using handler_step.terminate [OF assms(3)] True assms(4) by (simp add: alone_def s1_def)
  moreover have "alone api env i s1 s2"
    using handler_step.delete [of s1 i] True assms(2,4) by (simp add: alone_def s1_def s2_def printer_fault_def)
  moreover have "alone api env i s2 s3" using handler_step.clear [of s2 i] assms(4) by (simp add: alone_def s1_def s2_def s3_def)
  moreover have "alone api env i s3 s4" using handler_step.quit [of s3 i] assms(4) by (simp add: alone_def s1_def s2_def s3_def s4_def)
  ultimately have "(alone api env i)\<^sup>*\<^sup>* s s4" by (rule four_steps)
  moreover have "ended s4 = Some (Exited n)" "sproc s4 = p" "dbs (sio (threads s4)) = db"
    using assms(1) True by (simp_all add: sig_term_def s4_def s3_def s2_def s1_def)
  ultimately show ?thesis by blast
qed

subsection \<open>What signals cannot break\<close>

lemma handler_inv:
  "handler_step api env i s s' \<Longrightarrow> callback_inv k (threads s) \<Longrightarrow> callback_inv k (threads s')"
  by (elim handler_stepE) (auto simp: callback_inv_def owns_def)

interpretation sig: invariant_steps "signal_step api peer env" "\<lambda>s. callback_inv k (threads s)" for api peer env k
  by unfold_locales (auto elim!: signal_stepE intro: handler_inv callback_inv_step)

lemma signals_reach:
  assumes "fresh_pool k (worker_thread m)" and "(signal_step api peer env)\<^sup>*\<^sup>* (signal_start m fl r p) s"
  shows "callback_inv k (threads s)"
  by (rule sig.inv_reaches [OF assms(2)]) (use callback_inv_start [OF assms(1)] in \<open>simp add: signal_start_def\<close>)

subsection \<open>Runs without a signal, and with one that nothing interrupts\<close>

definition undisturbed :: "'db signalled \<Rightarrow> bool" where
  "undisturbed s \<longleftrightarrow> ended s = None \<and> handling s = (\<lambda>_. NoSignal) \<and> printer_fault s = None"

lemma undisturbed_start: "printer_set p \<Longrightarrow> undisturbed (signal_start m fl r p)"
  by (simp add: undisturbed_def signal_start_def printer_fault_def)

lemma callbacks_run:
  assumes "(callback_step api peer (settings (sproc s)))\<^sup>*\<^sup>* (threads s) t" and "undisturbed s"
  shows "(signal_step api peer env)\<^sup>*\<^sup>* s (s\<lparr>threads := t\<rparr>)"
  using assms(1)
proof (induction rule: rtranclp_induct)
  case base
  then show ?case by simp
next
  case (step t u)
  then obtain i where "thread_callback api peer (settings (sproc s)) i t u" by (auto simp: callback_step_def)
  then have "signal_step api peer env (s\<lparr>threads := t\<rparr>) (s\<lparr>threads := t\<rparr>\<lparr>threads := u\<rparr>)"
    by (intro signal_step.callback) (use assms(2) in \<open>auto simp: undisturbed_def printer_fault_def split: if_splits\<close>)
  with step.IH show ?case by simp
qed

lemma handler_run: "(alone api env i)\<^sup>*\<^sup>* s t \<Longrightarrow> (signal_step api peer env)\<^sup>*\<^sup>* s t"
  by (erule rtranclp_mono [THEN predicate2D, rotated]) (auto simp: alone_def intro: signal_step.handler)

lemma running_covered:
  assumes "running_step api peer env s t" and "conns_inv k (server s)" and "base (threads u) = server s"
    and "quiet (threads u)" and "sproc u = proc s" and "undisturbed u"
  shows "\<exists>v. (signal_step api peer env)\<^sup>*\<^sup>* u v \<and> base (threads v) = server t \<and> quiet (threads v) \<and>
    sproc v = proc t \<and> undisturbed v"
  using assms(1)
proof cases
  case (callback t')
  from cover_step [OF callback(2) assms(2-4)] obtain ts where
    ts: "(callback_step api peer (settings (proc s)))\<^sup>*\<^sup>* (threads u) ts" "base ts = t'" "quiet ts" by blast
  then have "(signal_step api peer env)\<^sup>*\<^sup>* u (u\<lparr>threads := ts\<rparr>)"
    by (intro callbacks_run) (simp_all add: assms(5,6))
  then show ?thesis
    using ts(2,3) callback(1) assms(5,6)
    by (intro exI [of _ "u\<lparr>threads := ts\<rparr>"]) (auto simp: undisturbed_def printer_fault_def split: if_splits)
next
  case (reload p)
  have none: "handling u None = NoSignal" "ended u = None" using assms(6) by (simp_all add: undisturbed_def)
  have run: "(signal_step api peer env)\<^sup>*\<^sup>* u (u\<lparr>sproc := p\<rparr>)"
    by (rule handler_run [where i = None], rule usr_run) (use reload(2) assms(5) none in simp_all)
  have "printer_set p = printer_set (proc s)"
    using reload(2) by (auto simp: SigUsr_def InitConfigure_def SettingsAndPrint_def split: sum.splits prod.splits if_splits)
  then show ?thesis
    using run reload(1) assms(3-6)
    by (intro exI [of _ "u\<lparr>sproc := p\<rparr>"]) (auto simp: undisturbed_def printer_fault_def split: if_splits)
qed

lemma running_run_covered:
  assumes "(running_step api peer env)\<^sup>*\<^sup>* s t" and "conns_inv k (server s)" and "base (threads u) = server s"
    and "quiet (threads u)" and "sproc u = proc s" and "undisturbed u"
  shows "\<exists>v. (signal_step api peer env)\<^sup>*\<^sup>* u v \<and> base (threads v) = server t \<and> quiet (threads v) \<and>
    sproc v = proc t \<and> undisturbed v"
  using assms(1)
proof (induction rule: rtranclp_induct)
  case base
  then show ?case using assms(3-6) by blast
next
  case (step t t')
  then obtain v where v: "(signal_step api peer env)\<^sup>*\<^sup>* u v" "base (threads v) = server t" "quiet (threads v)"
    "sproc v = proc t" "undisturbed v" by blast
  from running_covered [OF step(2) run.inv_reaches [OF step(1) assms(2)] v(2-5)] obtain w where
    "(signal_step api peer env)\<^sup>*\<^sup>* v w" "base (threads w) = server t'" "quiet (threads w)" "sproc w = proc t'" "undisturbed w"
    by blast
  with v(1) show ?case by (intro exI [of _ w]) (auto intro: rtranclp_trans)
qed

subsection \<open>A worker in the middle of a request\<close>

lemma messages_of_request: "sendable fs \<Longrightarrow> messages_of (request_text fs @ CRLF) = [request_text fs]"
proof -
  assume fs: "sendable fs"
  have "find_str CRLF [] = None" by (simp add: CRLF_def)
  moreover have "split_tokens CRLF (join_tokens CRLF [request_text fs] @ []) = [request_text fs] @ split_tokens CRLF []"
    by (rule split_tokens_join) (use request_text_clean [OF fs] in \<open>auto simp: CRLF_def\<close>)
  ultimately show ?thesis
    using requests_framed [of "[fs]" "[]"] fs by (simp add: messages_of_def split_tokens_absent)
qed

lemma reach_serving:
  assumes "fresh_pool k (worker_thread m)" and "unat (thread_num g) = k" and "0 < k" and "int k \<le> INT_MAX"
    and "fd \<noteq> (0 :: int)" and "fd \<noteq> - 1" and "sendable fs" and "length (request_text fs @ CRLF) \<le> BUFSIZE"
  shows "\<exists>t i b a. (callback_step api peer g)\<^sup>*\<^sup>* (threads_start m fl r) t \<and>
    busy t i = Serving b a [request_text fs] \<and> sio t = r"
proof -
  obtain s tid c where s: "(intruder_step True api peer g)\<^sup>+\<^sup>+ (start_state m fl r) s" "sio s = r"
      "live (conns s) = [1 \<mapsto> \<lparr>cbarg = 1, read_timeout = client_heartbeat_timeout g\<rparr>]"
      "heap (conns s) = [1 \<mapsto> init_fields fd tid c]"
    using first_connection [OF assms(1-6), of api peer fl r] by blast
  have "(server_step api peer g)\<^sup>*\<^sup>* (start_state m fl r) s"
    using tranclp_into_rtranclp [OF s(1)] by (rule rtranclp_mono [THEN predicate2D, rotated]) (auto intro: intruder_is_server)
  from cover_run [OF this conns_inv_start [OF assms(1)]] obtain t where
    t: "(callback_step api peer g)\<^sup>*\<^sup>* (threads_start m fl r) t" "base t = s" "quiet t"
    by (metis base_start quiet_start)
  define a b :: nat where "a = 1" and "b = 1"
  have new: "live (conns t) b = Some \<lparr>cbarg = a, read_timeout = client_heartbeat_timeout g\<rparr>"
      "heap (conns t) a = Some (init_fields fd tid c)"
    using t(2) s(3,4) by (auto simp: base_def a_def b_def)
  let ?i = "home t b" and ?text = "request_text fs @ CRLF"
  let ?t1 = "t\<lparr>busy := (busy t)(?i := Reading b a (xor_text (xor_text ?text)))\<rparr>"
  have 1: "thread_callback api peer g (Some ?i) t ?t1"
    using thread_callback.read [OF _ new(1), of ?i "xor_text ?text"] t(3) assms(8) by (simp add: quiet_def)
  have "busy ?t1 ?i = Reading b a ?text" "heap (conns ?t1) a = Some (init_fields fd tid c)" using new(2) by simp_all
  note 2 = thread_callback.check [OF this, of api peer g]
  have "after_check b a ?text (init_fields fd tid c) = Serving b a [request_text fs]"
    using messages_of_request [OF assms(7)]
    by (simp add: after_check_def) (simp add: request_text_def TOKEN_LENGTH_def TOKEN_STR_def)
  let ?t2 = "?t1\<lparr>conns := (conns ?t1)\<lparr>heap := (heap (conns ?t1))(a \<mapsto> check_token ?text (init_fields fd tid c))\<rparr>,
      busy := (busy ?t1)(?i := after_check b a ?text (init_fields fd tid c))\<rparr>"
  from \<open>after_check b a ?text (init_fields fd tid c) = Serving b a [request_text fs]\<close>
  have "busy (?t1\<lparr>conns := (conns ?t1)\<lparr>heap := (heap (conns ?t1))(a \<mapsto> check_token ?text (init_fields fd tid c))\<rparr>,
      busy := (busy ?t1)(?i := after_check b a ?text (init_fields fd tid c))\<rparr>) ?i = Serving b a [request_text fs]" by simp
  moreover have "sio t = r" using t(2) s(2) by (auto simp: base_def)
  ultimately show ?thesis
    using rtranclp_trans [OF t(1) callback_next [OF 1 callback_next [OF 2 rtranclp.rtrancl_refl]]]
    by (intro exI [of _ ?t2] exI [of _ ?i] exI [of _ b] exI [of _ a] conjI) simp_all
qed

subsection \<open>A termination that others interrupt\<close>

lemma uses_printer_request:
  "sendable fs \<Longrightarrow> length fs = 3 \<or> length fs = 6 \<Longrightarrow> atoi (fs ! 0) \<in> {1, 2, 3, 4} \<Longrightarrow> uses_printer (request_text fs)"
  by (auto simp: uses_printer_def request_fields Let_def)

text \<open>The handler up to the deleted printer, and up to the pointer that is NULL.\<close>

lemma deleted_run:
  assumes "undisturbed s"
  shows "\<exists>t u. (signal_step api peer env)\<^sup>*\<^sup>* s t \<and> (signal_step api peer env)\<^sup>*\<^sup>* s u \<and>
    printer_fault t = Some UseAfterFree \<and> printer_fault u = Some NullDereference \<and> ended t = None \<and> ended u = None \<and>
    (\<forall>j. handling t (Some j) = NoSignal \<and> handling u (Some j) = NoSignal \<and>
       busy (threads t) j = busy (threads s) j \<and> busy (threads u) j = busy (threads s) j)"
proof -
  have s: "ended s = None" "printer_set (sproc s)" "\<not> freed s" "handling s = (\<lambda>_. NoSignal)"
    using assms by (auto simp: undisturbed_def printer_fault_def split: if_splits)
  define s1 where "s1 = s\<lparr>handling := (handling s)(None := Deleting)\<rparr>"
  define s2 where "s2 = s1\<lparr>freed := True, handling := (handling s1)(None := Clearing),
      threads := (threads s1)\<lparr>sio := (sio (threads s1))\<lparr>dbs := CloseMySQLConn api (dbs (sio (threads s1)))\<rparr>\<rparr>\<rparr>"
  define s3 where "s3 = s2\<lparr>sproc := (sproc s2)\<lparr>printer_set := False\<rparr>, handling := (handling s2)(None := Exiting)\<rparr>"
  have 1: "signal_step api peer env s s1"
    using signal_step.handler [OF s(1) handler_step.terminate [of s None]] s by (simp add: s1_def)
  have 2: "signal_step api peer env s1 s2"
    using signal_step.handler [OF _ handler_step.delete [of s1 None]] s by (simp add: s1_def s2_def printer_fault_def)
  have 3: "signal_step api peer env s2 s3"
    using signal_step.handler [OF _ handler_step.clear [of s2 None]] s by (simp add: s1_def s2_def s3_def)
  have "(signal_step api peer env)\<^sup>*\<^sup>* s s2" "(signal_step api peer env)\<^sup>*\<^sup>* s s3"
    using 1 2 3 by (auto intro: rtranclp.rtrancl_into_rtrancl)
  moreover have "printer_fault s2 = Some UseAfterFree" "printer_fault s3 = Some NullDereference" "ended s2 = None" "ended s3 = None"
    "\<forall>j. handling s2 (Some j) = NoSignal \<and> handling s3 (Some j) = NoSignal \<and>
       busy (threads s2) j = busy (threads s) j \<and> busy (threads s3) j = busy (threads s) j"
    using s by (simp_all add: s3_def s2_def s1_def printer_fault_def)
  ultimately show ?thesis by blast
qed

lemma deleted_twice_run:
  assumes "undisturbed s"
  shows "\<exists>t. (signal_step api peer env)\<^sup>*\<^sup>* s t \<and> ended t = Some (Crashed InvalidFree)"
proof -
  have s: "ended s = None" "printer_set (sproc s)" "\<not> freed s" "handling s = (\<lambda>_. NoSignal)"
    using assms by (auto simp: undisturbed_def printer_fault_def split: if_splits)
  define s1 where "s1 = s\<lparr>handling := (handling s)(None := Deleting)\<rparr>"
  define s2 where "s2 = s1\<lparr>handling := (handling s1)(Some 0 := Deleting)\<rparr>"
  define s3 where "s3 = s2\<lparr>freed := True, handling := (handling s2)(None := Clearing),
      threads := (threads s2)\<lparr>sio := (sio (threads s2))\<lparr>dbs := CloseMySQLConn api (dbs (sio (threads s2)))\<rparr>\<rparr>\<rparr>"
  have "signal_step api peer env s s1"
    using signal_step.handler [OF s(1) handler_step.terminate [of s None]] s by (simp add: s1_def)
  moreover have "signal_step api peer env s1 s2"
    using signal_step.handler [OF _ handler_step.terminate [of s1 "Some 0"]] s by (simp add: s1_def s2_def)
  moreover have "signal_step api peer env s2 s3"
    using signal_step.handler [OF _ handler_step.delete [of s2 None]] s by (simp add: s1_def s2_def s3_def printer_fault_def)
  moreover have "signal_step api peer env s3 (s3\<lparr>ended := Some (Crashed InvalidFree)\<rparr>)"
    using signal_step.handler [OF _ handler_step.delete_again [of s3 "Some 0"]] s
    by (simp add: s1_def s2_def s3_def printer_fault_def)
  ultimately have "(signal_step api peer env)\<^sup>*\<^sup>* s (s3\<lparr>ended := Some (Crashed InvalidFree)\<rparr>)" by (rule four_steps)
  then show ?thesis by (intro exI conjI) (assumption, simp)
qed

lemma crash_run:
  assumes "(signal_step api peer env)\<^sup>*\<^sup>* s t" and "ended t = None" and "printer_fault t = Some f"
    and "handling t (Some i) = NoSignal" and "busy (threads t) i = Serving b a (m # ms)" and "uses_printer m"
  shows "\<exists>u. (signal_step api peer env)\<^sup>*\<^sup>* s u \<and> ended u = Some (Crashed f)"
proof -
  have "at_printer t (Some i)" using assms(5,6) by (auto simp: at_printer_def)
  from rtranclp.rtrancl_into_rtrancl [OF assms(1) signal_step.crash [OF assms(2,4) this assms(3)]] show ?thesis
    by (intro exI conjI) (assumption, simp)
qed

subsection \<open>Properties\<close>

text \<open>
  C5. Signals do not disturb the ownership of connection objects.  Reloads and the start of a
  termination, in any thread, between any two actions of a callback and at any point of another
  handler, leave what the threads may rely on: no two threads work on the same object, one that
  is worked on exists, is not in the pool, and if a bufferevent refers to it then this is one of
  the thread's own, no object is lost, and the pool of workers keeps its size.
\<close>

theorem signals_race_free:
  assumes "fresh_pool k (worker_thread m)" and "(signal_step api peer env)\<^sup>*\<^sup>* (signal_start m fl r p) s"
  shows "(touches (busy (threads s) i) a \<and> touches (busy (threads s) j) a \<longrightarrow> i = j) \<and>
    (touches (busy (threads s) i) a \<longrightarrow>
       heap (conns (threads s)) a \<noteq> None \<and> a \<notin> set (pool_stack (pool (conns (threads s)))) \<and>
       (\<forall>b x. live (conns (threads s)) b = Some x \<and> cbarg x = a \<longrightarrow> home (threads s) b = i)) \<and>
    distinct (pool_stack (pool (conns (threads s)))) \<and>
    (\<forall>a\<in>dom (heap (conns (threads s))). a \<in> set (pool_stack (pool (conns (threads s)))) \<or>
       (\<exists>b x. live (conns (threads s)) b = Some x \<and> cbarg x = a) \<or> (\<exists>i. held (busy (threads s) i) = Some a)) \<and>
    length (vec_libevent_thread (worker_thread (master (threads s)))) = k"
proof -
  have inv: "callback_inv k (threads s)" using signals_reach [OF assms] .
  then have "length (vec_libevent_thread (worker_thread (master (threads s)))) = k" by (simp add: callback_inv_def)
  with race_free [OF inv, of i a j] show ?thesis by blast
qed

abbreviation demo_signalled :: "string list signalled" where
  "demo_signalled \<equiv> signal_start (new_master\<lparr>worker_thread := two_workers\<rparr>) static_freelist idle_io
     (demo_process\<lparr>settings := demo_settings, printer_set := True\<rparr>)"

theorem signals_race_free_witness:
  "\<exists>s. (signal_step (recording_api []) local_peer \<lparr>cwd = None, files = \<lambda>f. None\<rparr>)\<^sup>*\<^sup>* demo_signalled s \<and>
     handling s (Some 1) = Deleting \<and> touches (busy (threads s) 0) 1 \<and> \<not> touches (busy (threads s) 1) 1"
proof -
  let ?step = "signal_step (recording_api []) local_peer \<lparr>cwd = None, files = \<lambda>f. None\<rparr>"
  obtain t where t: "(callback_step (recording_api []) local_peer demo_settings)\<^sup>*\<^sup>* demo_start t" "busy t 0 = Filling 10 1"
    using demo_reach by blast
  have "?step\<^sup>*\<^sup>* demo_signalled (demo_signalled\<lparr>threads := t\<rparr>)"
    by (rule callbacks_run) (use t(1) in \<open>simp_all add: signal_start_def undisturbed_def printer_fault_def\<close>)
  moreover have "?step (demo_signalled\<lparr>threads := t\<rparr>) (demo_signalled\<lparr>threads := t,
      handling := (handling demo_signalled)(Some 1 := Deleting)\<rparr>)"
    using signal_step.handler [OF _ handler_step.terminate [of "demo_signalled\<lparr>threads := t\<rparr>" "Some 1"]]
    by (simp add: signal_start_def)
  ultimately have run: "?step\<^sup>*\<^sup>* demo_signalled (demo_signalled\<lparr>threads := t,
      handling := (handling demo_signalled)(Some 1 := Deleting)\<rparr>)"
    by (rule rtranclp.rtrancl_into_rtrancl)
  have "touches (busy t 0) 1" using t(2) by (simp add: touches_def)
  with signals_race_free [OF two_workers_fresh run, of 0 1 1] run show ?thesis
    by (intro exI conjI) (assumption, auto simp: signal_start_def)
qed



text \<open>
  C8. Termination is not clean.  From a freshly started server with any number of workers,
  SIGTERM while a worker is about to execute a request makes the process crash instead of
  ending with status 0: the worker uses the deleted printer, or follows the pointer that has
  become NULL, as the handler does not take the mutex that guards the printer.  Two
  SIGTERM that two threads take delete the printer twice.  Without these races the handler ends
  the process with status 0.
\<close>

theorem sigterm_crashes:
  assumes "fresh_pool k (worker_thread m)" and "unat (thread_num (settings p)) = k" and "0 < k" and "int k \<le> INT_MAX"
    and "printer_set p" and "fd \<noteq> (0 :: int)" and "fd \<noteq> - 1" and "sendable fs" and "length (request_text fs @ CRLF) \<le> BUFSIZE"
    and "length fs = 3 \<or> length fs = 6" and "atoi (fs ! 0) \<in> {1, 2, 3, 4}"
    and "e \<in> {Crashed UseAfterFree, Crashed NullDereference, Crashed InvalidFree, Exited 0}"
  shows "\<exists>s. (signal_step api peer env)\<^sup>*\<^sup>* (signal_start m fl r p) s \<and> ended s = Some e"
proof -
  let ?s0 = "signal_start m fl r p"
  have s0: "undisturbed ?s0" by (rule undisturbed_start [OF assms(5)])
  obtain t i b a where t: "(callback_step api peer (settings p))\<^sup>*\<^sup>* (threads_start m fl r) t"
      "busy t i = Serving b a [request_text fs]"
    using reach_serving [OF assms(1-4,6-9)] by blast
  let ?s1 = "?s0\<lparr>threads := t\<rparr>"
  have run: "(signal_step api peer env)\<^sup>*\<^sup>* ?s0 ?s1"
    by (rule callbacks_run [OF _ s0]) (use t(1) in \<open>simp add: signal_start_def\<close>)
  have "undisturbed ?s1" using s0 by (auto simp: undisturbed_def printer_fault_def split: if_splits)
  from deleted_run [OF this, of api peer env] t(2) obtain u v where
    uv: "(signal_step api peer env)\<^sup>*\<^sup>* ?s1 u" "printer_fault u = Some UseAfterFree" "ended u = None"
      "handling u (Some i) = NoSignal" "busy (threads u) i = Serving b a [request_text fs]"
      "(signal_step api peer env)\<^sup>*\<^sup>* ?s1 v" "printer_fault v = Some NullDereference" "ended v = None"
      "handling v (Some i) = NoSignal" "busy (threads v) i = Serving b a [request_text fs]"
    by auto
  note uses = uses_printer_request [OF assms(8,10,11)]
  have "sig_term api SIGTERM (sproc ?s0) (dbs (sio (threads ?s0))) = (Some 0, p\<lparr>printer_set := False\<rparr>, CloseMySQLConn api (dbs r))"
    using assms(5) by (simp add: sig_term_def signal_start_def threads_start_def)
  from terminate_run [OF this, of None] have exit: "\<exists>s. (signal_step api peer env)\<^sup>*\<^sup>* ?s0 s \<and> ended s = Some (Exited 0)"
    by (auto simp: signal_start_def dest: handler_run)
  show ?thesis
    using assms(12) exit deleted_twice_run [OF s0] crash_run [OF rtranclp_trans [OF run uv(1)] uv(3,2,4,5) uses]
      crash_run [OF rtranclp_trans [OF run uv(6)] uv(8,7,9,10) uses]
    by blast
qed

theorem sigterm_crashes_witness:
  "\<exists>s. (signal_step (recording_api []) local_peer (paths repo_main))\<^sup>*\<^sup>* demo_signalled s \<and> ended s = Some (Crashed UseAfterFree)"
proof -
  let ?p = "demo_process\<lparr>settings := demo_settings, printer_set := True\<rparr>"
  have g: "unat (thread_num (settings ?p)) = 2" "0 < (2 :: nat)" "int 2 \<le> INT_MAX" by (simp_all add: INT_MAX_def)
  have fs: "sendable [''4'', ''x'', ''y'']" "length (request_text [''4'', ''x'', ''y''] @ CRLF) \<le> BUFSIZE"
    "atoi ([''4'', ''x'', ''y''] ! 0) \<in> {1, 2, 3, 4}" by code_simp+
  from sigterm_crashes [OF two_workers_fresh g _ _ _ fs(1,2) _ fs(3), of 10 "Crashed UseAfterFree"] show ?thesis by simp
qed

end
