(* ===== verification/Replies.thy ===== *)
theory Replies
  imports ThreadProps SocketWrapper
begin

section \<open>worker_threads.cc and socket_wrapper.h: what a client can read from the replies\<close>

text \<open>
  Replies go to the client one behind the other, without a length and without a mark between
  them, encoded with the key.  \<open>read_replies\<close> is what a client has to do to tell them apart:
  look which status text the bytes begin with, and go on behind it.  It is a reference for the
  statements, not code of the repository.
\<close>

definition next_reply :: "string \<Rightarrow> string option" where
  "next_reply bytes = find (\<lambda>r. prefix (xor_text r) bytes) reply_texts"

lemma next_reply_length: "next_reply bytes = Some r \<Longrightarrow> 0 < length r \<and> length r \<le> length bytes"
  by (auto simp: next_reply_def find_Some_iff reply_texts_def less_Suc_eq numeral_eq_Suc dest!: prefix_length_le split: if_splits)

function read_replies :: "string \<Rightarrow> string list option" where
  "read_replies bytes =
     (if bytes = [] then Some []
      else case next_reply bytes of
             None \<Rightarrow> None
           | Some r \<Rightarrow> map_option ((#) r) (read_replies (drop (length r) bytes)))"
  by pat_completeness auto
termination
  by (relation "measure length") (auto dest: next_reply_length)

declare read_replies.simps [simp del]

lemma read_Nil [simp]: "read_replies [] = Some []"
  by (simp add: read_replies.simps)

text \<open>Decoded, the texts are compared as they are; none of them is the beginning of another.\<close>

lemma xor_text_append [simp]: "xor_text (s @ t) = xor_text s @ xor_text t"
  by (simp add: xor_text_def)

lemma prefix_xor: "prefix (xor_text r) bytes \<longleftrightarrow> prefix r (xor_text bytes)"
proof
  assume "prefix (xor_text r) bytes"
  then obtain u where "bytes = xor_text r @ u" by (auto simp: prefix_def)
  then show "prefix r (xor_text bytes)" by simp
next
  assume "prefix r (xor_text bytes)"
  then obtain u where "xor_text bytes = r @ u" by (auto simp: prefix_def)
  then have "xor_text (xor_text bytes) = xor_text r @ xor_text u" by simp
  then show "prefix (xor_text r) bytes" by simp
qed

lemma next_reply_plain: "next_reply (xor_text s) = find (\<lambda>r. prefix r s) reply_texts"
  by (simp add: next_reply_def prefix_xor)

lemma next_reply_append: "r \<in> set reply_texts \<Longrightarrow> next_reply (xor_text r @ u) = Some r"
  using next_reply_plain [of "r @ xor_text u"] by (auto simp: reply_texts_def)

lemma read_append:
  assumes "r \<in> set reply_texts"
  shows "read_replies (xor_text r @ u) = map_option ((#) r) (read_replies u)"
proof -
  have "xor_text r @ u \<noteq> []" using assms by (auto simp: reply_texts_def xor_text_def)
  then show ?thesis
    using next_reply_append [OF assms, of u] by (subst read_replies.simps) simp
qed

lemma read_stream:
  "set rs \<subseteq> set reply_texts \<Longrightarrow> read_replies (concat (map xor_text rs) @ u) = map_option ((@) rs) (read_replies u)"
  by (induction rs) (cases "read_replies u"; simp add: read_append)+

text \<open>A text that is cut, and whatever replies follow it, are not taken for something else.\<close>

definition begins_reply :: "string \<Rightarrow> bool" where
  "begins_reply w \<longleftrightarrow> w = [] \<or> (\<exists>v. w = ''f0'' @ v \<or> w = ''e1'' @ v \<or> w = ''e2'' @ v \<or> w = ''e3'' @ v)"

lemma begins_reply_cases:
  assumes "begins_reply w"
  obtains "w = []" | v where "w = ''f0'' @ v" | v where "w = ''e1'' @ v" | v where "w = ''e2'' @ v" | v where "w = ''e3'' @ v"
  using assms by (auto simp: begins_reply_def)

lemma begins_replies: "set rs \<subseteq> set reply_texts \<Longrightarrow> begins_reply (concat rs)"
  by (cases rs) (auto simp: begins_reply_def reply_texts_def)

lemma next_reply_cut_f0:
  assumes "n \<in> {1, 2, 3, 4}" and "begins_reply w"
  shows "find (\<lambda>r. prefix r (take n ''f0:ok'' @ w)) reply_texts = None"
  unfolding reply_texts_def using assms(2)
  by (rule begins_reply_cases) (use assms(1) in \<open>elim insertE emptyE, simp_all\<close>)+

lemma next_reply_cut_e1:
  assumes "n \<in> {1, 2, 3, 4, 5, 6}" and "begins_reply w"
  shows "find (\<lambda>r. prefix r (take n ''e1:fail'' @ w)) reply_texts = None"
  unfolding reply_texts_def using assms(2)
  by (rule begins_reply_cases) (use assms(1) in \<open>elim insertE emptyE, simp_all\<close>)+

lemma next_reply_cut_e2:
  assumes "n \<in> {1, 2, 3, 4, 5, 6}" and "begins_reply w"
  shows "find (\<lambda>r. prefix r (take n ''e2:fail'' @ w)) reply_texts = None"
  unfolding reply_texts_def using assms(2)
  by (rule begins_reply_cases) (use assms(1) in \<open>elim insertE emptyE, simp_all\<close>)+

lemma next_reply_cut_e3:
  assumes "n \<in> {1, 2, 3, 4, 5, 6}" and "begins_reply w"
  shows "find (\<lambda>r. prefix r (take n ''e3:fail'' @ w)) reply_texts = None"
  unfolding reply_texts_def using assms(2)
  by (rule begins_reply_cases) (use assms(1) in \<open>elim insertE emptyE, simp_all\<close>)+

lemma xor_text_take: "take n (xor_text s) = xor_text (take n s)"
  by (simp add: xor_text_def take_map)

lemma xor_text_concat: "concat (map xor_text rs) = xor_text (concat rs)"
  by (induction rs) (simp_all add: xor_text_def)

lemma next_reply_cut:
  assumes "r \<in> set reply_texts" and "0 < n" and "n < length r" and "set rs \<subseteq> set reply_texts"
  shows "next_reply (take n (xor_text r) @ concat (map xor_text rs)) = None"
proof -
  note w = begins_replies [OF assms(4)]
  from assms(1-3) consider "r = ''f0:ok''" "n \<in> {1, 2, 3, 4}" | "r = ''e1:fail''" "n \<in> {1, 2, 3, 4, 5, 6}"
    | "r = ''e2:fail''" "n \<in> {1, 2, 3, 4, 5, 6}" | "r = ''e3:fail''" "n \<in> {1, 2, 3, 4, 5, 6}"
    by (auto simp: reply_texts_def less_Suc_eq numeral_eq_Suc)
  then have "find (\<lambda>t. prefix t (take n r @ concat rs)) reply_texts = None"
  proof cases
    case 1
    show ?thesis unfolding 1(1) by (rule next_reply_cut_f0 [OF 1(2) w])
  next
    case 2
    show ?thesis unfolding 2(1) by (rule next_reply_cut_e1 [OF 2(2) w])
  next
    case 3
    show ?thesis unfolding 3(1) by (rule next_reply_cut_e2 [OF 3(2) w])
  next
    case 4
    show ?thesis unfolding 4(1) by (rule next_reply_cut_e3 [OF 4(2) w])
  qed
  then show ?thesis
    using next_reply_plain [of "take n r @ concat rs"] by (simp add: xor_text_take xor_text_concat)
qed

subsection \<open>Properties\<close>

text \<open>The bytes that a thread has sent to a socket, and its requests that are answered there.\<close>

definition sent_to :: "int \<Rightarrow> event list \<Rightarrow> string" where
  "sent_to fd es = concat (map (\<lambda>e. case e of Sent f t \<Rightarrow> if f = fd then t else [] | _ \<Rightarrow> []) es)"

definition answered :: "int \<Rightarrow> job list \<Rightarrow> job list" where
  "answered fd js = filter (\<lambda>j. destinations j = [Some fd]) js"

lemma sent_to_texts:
  "list_all status_event es \<Longrightarrow> \<exists>rs. sent_to fd es = concat (map xor_text rs) \<and> set rs \<subseteq> set reply_texts \<and>
     length rs = length (filter (\<lambda>d. d = Some fd) (map destination es))"
proof (induction es)
  case Nil
  show ?case by (intro exI [of _ "[]"]) (simp add: sent_to_def)
next
  case (Cons e es)
  then obtain rs where rs: "sent_to fd es = concat (map xor_text rs)" "set rs \<subseteq> set reply_texts"
    "length rs = length (filter (\<lambda>d. d = Some fd) (map destination es))" by auto
  show ?case
  proof (cases "destination e = Some fd")
    case True
    then obtain t where e: "e = Sent fd t" by (cases e) auto
    with Cons.prems obtain r where "r \<in> set reply_texts" "t = xor_text r" by (auto simp: status_event_def)
    with rs e show ?thesis by (intro exI [of _ "r # rs"]) (simp add: sent_to_def)
  next
    case False
    then have "sent_to fd (e # es) = sent_to fd es" by (auto simp: sent_to_def split: event.splits)
    with rs False show ?thesis by (intro exI [of _ rs]) simp
  qed
qed

lemma destinations_to: "length (filter (\<lambda>d. d = Some fd) (concat (map destinations js))) = length (answered fd js)"
proof (induction js)
  case (Cons j js)
  then show ?case by (cases j) (auto simp: answered_def)
qed (simp add: answered_def)





end
