(* ===== verification/Calls.thy ===== *)
theory Calls
  imports Callbacks Replies
begin

section \<open>worker_threads.cc: the callbacks, down to the calls under the mutex\<close>

text \<open>
  Callbacks takes a message, with all its calls of the MySQL library and its reply, as one
  action of its thread, and a pool operation likewise; Threads takes jobs as given and goes down
  to the calls.  Here the two are put together: the actions of a run of Callbacks on the
  database and the pool are the jobs of a run of Threads, with the same database, the same pool
  and the same replies on the wire.
\<close>

subsection \<open>What a request does does not depend on what was sent before\<close>

definition behind :: "(int \<times> string) list \<Rightarrow> 'db io outcome \<Rightarrow> 'db io outcome" where
  "behind w = map_sum id (\<lambda>r. r\<lparr>wire := w @ wire r\<rparr>)"

lemma behind_simps [simp]:
  "behind w (Inl f) = Inl f" "behind w (Inr r) = Inr (r\<lparr>wire := w @ wire r\<rparr>)"
  by (simp_all add: behind_def)

lemma insert_and_reply_wire:
  "insert_and_reply api fd sql \<lparr>dbs = db, wire = w\<rparr> = behind w (insert_and_reply api fd sql \<lparr>dbs = db, wire = []\<rparr>)"
  by (auto simp: insert_and_reply_def reply_def bindE_def split: sum.splits)

lemma run_command_wire:
  "run_command api peer fd vec \<lparr>dbs = db, wire = w\<rparr> = behind w (run_command api peer fd vec \<lparr>dbs = db, wire = []\<rparr>)"
proof -
  have "case_INSERT api fd name passwd dev p2p ip \<lparr>dbs = db, wire = w\<rparr> =
      behind w (case_INSERT api fd name passwd dev p2p ip \<lparr>dbs = db, wire = []\<rparr>)" for name passwd dev p2p ip
    using insert_and_reply_wire [of api fd _ _ w]
    by (auto simp: case_INSERT_def Let_def reply_def bindE_def split: sum.splits)
  moreover have "case_SELECT api fd name passwd \<lparr>dbs = db, wire = w\<rparr> =
      behind w (case_SELECT api fd name passwd \<lparr>dbs = db, wire = []\<rparr>)" for name passwd
    by (auto simp: case_SELECT_def Let_def reply_def bindE_def split: sum.splits)
  moreover have "case_UPDATE api fd name passwd \<lparr>dbs = db, wire = w\<rparr> =
      behind w (case_UPDATE api fd name passwd \<lparr>dbs = db, wire = []\<rparr>)" for name passwd
    by (auto simp: case_UPDATE_def reply_def bindE_def split: sum.splits)
  moreover have "case_DELETE api \<lparr>dbs = db, wire = w\<rparr> = behind w (case_DELETE api \<lparr>dbs = db, wire = []\<rparr>)"
    by (auto simp: case_DELETE_def bindE_def split: sum.splits)
  moreover have "case_default fd \<lparr>dbs = db, wire = w\<rparr> = behind w (case_default fd \<lparr>dbs = db, wire = []\<rparr>)"
    by (simp add: case_default_def reply_def)
  ultimately show ?thesis by (simp only: run_command_def Let_def split: if_split) auto
qed

text \<open>A message is the job of its request.\<close>

lemma message_job:
  assumes "process_message api peer fd msg s = Inr s'"
  shows "\<exists>w. wire s' = wire s @ w \<and> exec_job api peer (Request fd (split_tokens SPACE3 (drop TOKEN_LENGTH msg)))
    (\<lparr>sdb = dbs s, spool = p\<rparr>, es) = Inr (\<lparr>sdb = dbs s', spool = p\<rparr>, es @ map (\<lambda>(f, t). Sent f t) w)"
proof -
  have "run_command api peer fd (split_tokens SPACE3 (drop TOKEN_LENGTH msg)) \<lparr>dbs = dbs s, wire = wire s\<rparr> = Inr s'"
    using assms by (cases s) (simp add: process_message_def)
  then obtain r where "run_command api peer fd (split_tokens SPACE3 (drop TOKEN_LENGTH msg)) \<lparr>dbs = dbs s, wire = []\<rparr> = Inr r"
    "s' = r\<lparr>wire := wire s @ wire r\<rparr>"
    by (subst (asm) run_command_wire) (auto simp: behind_def map_sum_def split: sum.splits)
  then show ?thesis by (intro exI [of _ "wire r"]) simp
qed

subsection \<open>The jobs of a run\<close>

text \<open>The replies on the wires are those of the threads, in some order between the threads.\<close>

inductive interleaved :: "(nat \<Rightarrow> event list) \<Rightarrow> (int \<times> string) list \<Rightarrow> bool" where
  nothing: "interleaved (\<lambda>_. []) []"
| sends: "interleaved ev w \<Longrightarrow> interleaved (ev(i := ev i @ map (\<lambda>(f, t). Sent f t) v)) (w @ v)"
| keeps: "interleaved ev w \<Longrightarrow> destination e = None \<Longrightarrow> interleaved (ev(i := ev i @ [e])) w"

definition shared_of :: "'db tserver \<Rightarrow> 'db shared" where
  "shared_of s = \<lparr>sdb = dbs (sio s), spool = pool (conns s)\<rparr>"

lemma step_job:
  assumes "thread_callback api peer g i s s'"
  shows "shared_of s' = shared_of s \<and> wire (sio s') = wire (sio s) \<or>
    (\<exists>k j es' w. i = Some k \<and> exec_job api peer j (shared_of s, es) = Inr (shared_of s', es @ es') \<and>
       wire (sio s') = wire (sio s) @ w \<and> (es' = map (\<lambda>(f, t). Sent f t) w \<or> (\<exists>e. es' = [e] \<and> destination e = None \<and> w = [])))"
  using assms
proof cases
  case (get k fd c p)
  then have "exec_job api peer Take (shared_of s, es) = Inr (shared_of s', es @ [Took c])" "wire (sio s') = wire (sio s)"
    by (simp_all add: shared_of_def)
  with get(1) show ?thesis by (metis append_Nil2 destination.simps(2))
next
  case (give_up k a p)
  then have "exec_job api peer (Give a) (shared_of s, es) = Inr (shared_of s', es @ [Gave True])" "wire (sio s') = wire (sio s)"
    by (simp_all add: shared_of_def)
  with give_up(1) show ?thesis by (metis append_Nil2 destination.simps(3))
next
  case (give k a p)
  then have "exec_job api peer (Give a) (shared_of s, es) = Inr (shared_of s', es @ [Gave True])" "wire (sio s') = wire (sio s)"
    by (simp_all add: shared_of_def)
  with give(1) show ?thesis by (metis append_Nil2 destination.simps(3))
next
  case (message k b a m ms c r)
  let ?j = "Request (sfd c) (split_tokens SPACE3 (drop TOKEN_LENGTH m))"
  from message_job [OF message(5), of "pool (conns s)" es] obtain w where
    w: "wire r = wire (sio s) @ w" "exec_job api peer ?j (shared_of s, es) = Inr (shared_of s', es @ map (\<lambda>(f, t). Sent f t) w)"
    by (auto simp: shared_of_def message(2) simp del: exec_job.simps)
  then show ?thesis
    using message(1,2) by (intro disjI2 exI [of _ k] exI [of _ ?j] exI [of _ "map (\<lambda>(f, t). Sent f t) w"] exI [of _ w]) simp
qed (simp_all add: shared_of_def)

lemma run_jobs:
  assumes "(callback_step api peer g)\<^sup>*\<^sup>* s s'"
  shows "\<exists>log ev w. seq_run api peer log (shared_of s, \<lambda>_. []) = Inr (shared_of s', ev) \<and>
    wire (sio s') = wire (sio s) @ w \<and> interleaved ev w"
  using assms
proof (induction rule: rtranclp_induct)
  case base
  show ?case by (intro exI [of _ "[]"] exI [of _ "\<lambda>_. []"]) (simp add: interleaved.nothing)
next
  case (step t u)
  then obtain log ev w where IH: "seq_run api peer log (shared_of s, \<lambda>_. []) = Inr (shared_of t, ev)"
    "wire (sio t) = wire (sio s) @ w" "interleaved ev w" by blast
  obtain i where i: "thread_callback api peer g i t u" using step(2) by (auto simp: callback_step_def)
  show ?case
  proof (cases "shared_of u = shared_of t \<and> wire (sio u) = wire (sio t)")
    case True
    with IH show ?thesis by metis
  next
    case False
    obtain k where k: "i = Some k" using step_job [OF i, of "[]"] False by blast
    with step_job [OF i, of "ev k"] False obtain j es' w' where
      j: "exec_job api peer j (shared_of t, ev k) = Inr (shared_of u, ev k @ es')" "wire (sio u) = wire (sio t) @ w'"
        "es' = map (\<lambda>(f, t). Sent f t) w' \<or> (\<exists>e. es' = [e] \<and> destination e = None \<and> w' = [])"
      by (metis option.inject)
    have "seq_run api peer (log @ [(k, j)]) (shared_of s, \<lambda>_. []) = Inr (shared_of u, ev(k := ev k @ es'))"
      using IH(1) j(1) by (simp add: seq_run_snoc seq_job_def)
    moreover have "interleaved (ev(k := ev k @ es')) (w @ w')"
      using j(3) interleaved.sends [OF IH(3), of k w'] interleaved.keeps [OF IH(3), of _ k] by auto
    ultimately show ?thesis using IH(2) j(2) by (metis append.assoc)
  qed
qed

subsection \<open>Properties\<close>



end
