(* ===== verification/SslClient.thy ===== *)
theory SslClient
  imports Settings
begin

section \<open>ssl.h and ssl.cpp: the non-blocking SSL client object\<close>

text \<open>
  \<open>ssl_client\<close> stands between a socket and an OpenSSL object that works on two memory BIOs.
  OpenSSL is a record of functions over an arbitrary state \<open>'ssl\<close> (the SSL object with its
  BIOs).  A pointer with its length (\<open>write_buf\<close>, \<open>write_len\<close>) is one list of bytes;
  \<open>realloc\<close> is taken to succeed, which the code does not check either.  The loops of the
  file end only when the library lets them, so the three functions with loops are partial:
  \<open>None\<close> is a call that never returns.
\<close>

definition DEFAULT_BUF_SIZE :: nat where
  "DEFAULT_BUF_SIZE = 1024"

record 'ssl ssl_api =
  SSL_do_handshake :: "'ssl \<Rightarrow> int \<times> 'ssl"
  SSL_get_error :: "'ssl \<Rightarrow> int \<Rightarrow> int"
  SSL_is_init_finished :: "'ssl \<Rightarrow> bool"
  SSL_read :: "nat \<Rightarrow> 'ssl \<Rightarrow> int \<times> string \<times> 'ssl"
  SSL_write :: "string \<Rightarrow> 'ssl \<Rightarrow> int \<times> 'ssl"
  BIO_write_rbio :: "string \<Rightarrow> 'ssl \<Rightarrow> int \<times> 'ssl"
  BIO_read_wbio :: "nat \<Rightarrow> 'ssl \<Rightarrow> int \<times> string \<times> 'ssl"
  BIO_should_retry :: "'ssl \<Rightarrow> bool"

record 'ssl ssl_client =
  ssl_fd :: int
  ssl :: 'ssl
  write_buf :: string
  encrypt_buf :: string

datatype sslstatus = SSLSTATUS_OK | SSLSTATUS_WANT_IO | SSLSTATUS_FAIL

text \<open>\<open>SSL_ERROR_NONE\<close> is 0, \<open>SSL_ERROR_WANT_READ\<close> 2 and \<open>SSL_ERROR_WANT_WRITE\<close> 3.\<close>

definition get_sslstatus :: "'ssl ssl_api \<Rightarrow> 'ssl \<Rightarrow> int \<Rightarrow> sslstatus" where
  "get_sslstatus api s n =
     (let e = SSL_get_error api s n
      in if e = 0 then SSLSTATUS_OK else if e = 3 \<or> e = 2 then SSLSTATUS_WANT_IO else SSLSTATUS_FAIL)"

definition ssl_client_init :: "int \<Rightarrow> 'ssl \<Rightarrow> 'ssl ssl_client" where
  "ssl_client_init fd new_ssl = \<lparr>ssl_fd = fd, ssl = new_ssl, write_buf = [], encrypt_buf = []\<rparr>"

text \<open>The exits: \<open>handle_error\<close> behind \<open>int_error\<close>, and \<open>die\<close>.\<close>

definition handle_error :: "'a or_exit" where
  "handle_error = Inl (- 1)"

definition die :: "'a or_exit" where
  "die = Inl 1"

record ctx_env =
  ssl_ctx :: bool
  cert_res :: int
  key_res :: int
  check_res :: int

text \<open>
  \<open>ssl_init\<close> makes the context of the process; file names that are NULL are \<open>None\<close>.  The
  result says whether certificate and key are loaded.
\<close>

definition ssl_init :: "ctx_env \<Rightarrow> string option \<Rightarrow> string option \<Rightarrow> bool or_exit" where
  "ssl_init env certfile keyfile =
     (if \<not> ssl_ctx env then die
      else if certfile \<noteq> None \<and> keyfile \<noteq> None
      then (if cert_res env \<noteq> 1 then handle_error
            else if key_res env \<noteq> 1 then handle_error
            else if check_res env \<noteq> 1 then handle_error
            else Inr True)
      else Inr False)"

text \<open>
  When one of the two names is missing, no certificate is loaded and the call returns all the
  same; otherwise it returns exactly when all four calls succeed.
\<close>

lemma ssl_init_result:
  "ssl_init env certfile keyfile = Inr loaded \<longleftrightarrow>
     ssl_ctx env \<and> loaded = (certfile \<noteq> None \<and> keyfile \<noteq> None) \<and>
     (loaded \<longrightarrow> cert_res env = 1 \<and> key_res env = 1 \<and> check_res env = 1)"
  by (auto simp: ssl_init_def die_def handle_error_def)

text \<open>
  \<open>ssl_client_cleanup\<close> frees the SSL object and both buffers and leaves the pointers as they
  are: \<open>None\<close> is a client after that, and freeing it again is undefined.
\<close>

definition ssl_client_cleanup :: "'ssl ssl_client option \<Rightarrow> 'ssl ssl_client option outcome" where
  "ssl_client_cleanup p = (case p of None \<Rightarrow> Inl InvalidFree | Some _ \<Rightarrow> Inr None)"

definition ssl_client_want_write :: "'ssl ssl_client \<Rightarrow> bool" where
  "ssl_client_want_write cp = (0 < length (write_buf cp))"

definition send_unencrypted_bytes :: "string \<Rightarrow> 'ssl ssl_client \<Rightarrow> 'ssl ssl_client" where
  "send_unencrypted_bytes buf client = client\<lparr>encrypt_buf := encrypt_buf client @ buf\<rparr>"

definition queue_encrypted_bytes :: "string \<Rightarrow> 'ssl ssl_client \<Rightarrow> 'ssl ssl_client" where
  "queue_encrypted_bytes buf client = client\<lparr>write_buf := write_buf client @ buf\<rparr>"

text \<open>
  The loop that empties the write BIO, which three functions share; False is the return
  with an error in its middle, and the number is the last value of \<open>n\<close>.
\<close>

partial_function (option) drain_wbio :: "'ssl ssl_api \<Rightarrow> 'ssl ssl_client \<Rightarrow> (bool \<times> int \<times> 'ssl ssl_client) option" where
  "drain_wbio api client =
     (case BIO_read_wbio api DEFAULT_BUF_SIZE (ssl client) of
        (n, buf, s) \<Rightarrow>
          let client1 = client\<lparr>ssl := s\<rparr>
          in if 0 < n then drain_wbio api (queue_encrypted_bytes (take (nat n) buf) client1)
             else if \<not> BIO_should_retry api s then Some (False, n, client1)
             else Some (True, n, client1))"

definition do_ssl_handshake :: "'ssl ssl_api \<Rightarrow> 'ssl ssl_client \<Rightarrow> (sslstatus \<times> 'ssl ssl_client) option" where
  "do_ssl_handshake api client =
     (case SSL_do_handshake api (ssl client) of
        (n, s) \<Rightarrow>
          let client1 = client\<lparr>ssl := s\<rparr>; status = get_sslstatus api s n
          in if status = SSLSTATUS_WANT_IO
             then (case drain_wbio api client1 of
                 None \<Rightarrow> None
               | Some (ok, _, client2) \<Rightarrow> Some (if ok then status else SSLSTATUS_FAIL, client2))
             else Some (status, client1))"

text \<open>
  \<open>print_unencrypted_data\<close>, the only \<open>io_on_read\<close>: each block of plain text overwrites the
  start of \<open>bufout\<close> and sets \<open>lenout\<close>.
\<close>

definition print_unencrypted_data :: "string \<Rightarrow> string \<times> nat \<Rightarrow> string \<times> nat" where
  "print_unencrypted_data buf out = (buf @ drop (length buf) (fst out), length buf)"

partial_function (option) read_plain ::
  "'ssl ssl_api \<Rightarrow> string \<times> nat \<Rightarrow> 'ssl ssl_client \<Rightarrow> (int \<times> (string \<times> nat) \<times> 'ssl ssl_client) option" where
  "read_plain api out client =
     (case SSL_read api DEFAULT_BUF_SIZE (ssl client) of
        (n, buf, s) \<Rightarrow>
          let client1 = client\<lparr>ssl := s\<rparr>
          in if 0 < n then read_plain api (print_unencrypted_data (take (nat n) buf) out) client1
             else Some (n, out, client1))"

partial_function (option) on_read_cb ::
  "'ssl ssl_api \<Rightarrow> string \<Rightarrow> string \<times> nat \<Rightarrow> 'ssl ssl_client \<Rightarrow> (int \<times> (string \<times> nat) \<times> 'ssl ssl_client) option" where
  "on_read_cb api src out client =
     (if src = [] then Some (0, out, client)
      else (case BIO_write_rbio api src (ssl client) of
        (n, s) \<Rightarrow>
          let client1 = client\<lparr>ssl := s\<rparr>
          in if n \<le> 0 then Some (- 1, out, client1)
             else let src1 = drop (nat n) src
             in Option.bind
                  (if \<not> SSL_is_init_finished api (ssl client1) then do_ssl_handshake api client1
                   else Some (SSLSTATUS_OK, client1))
                  (\<lambda>(hs, client2).
                    if hs = SSLSTATUS_FAIL then Some (- 1, out, client2)
                    else if \<not> SSL_is_init_finished api (ssl client2) then Some (0, out, client2)
                    else Option.bind (read_plain api out client2) (\<lambda>(n1, out1, client3).
                      let status = get_sslstatus api (ssl client3) n1
                      in Option.bind (if status = SSLSTATUS_WANT_IO then drain_wbio api client3 else Some (True, n1, client3))
                           (\<lambda>(ok, _, client4).
                             if \<not> ok then Some (- 1, out1, client4)
                             else if status = SSLSTATUS_FAIL then Some (- 1, out1, client4)
                             else on_read_cb api src1 out1 client4)))))"

partial_function (option) encrypt_loop :: "'ssl ssl_api \<Rightarrow> 'ssl ssl_client \<Rightarrow> (int \<times> 'ssl ssl_client) option" where
  "encrypt_loop api client =
     (if encrypt_buf client = [] then Some (0, client)
      else (case SSL_write api (encrypt_buf client) (ssl client) of
        (n, s) \<Rightarrow>
          let client1 = client\<lparr>ssl := s\<rparr>; status = get_sslstatus api s n
          in if 0 < n
             then Option.bind (drain_wbio api (client1\<lparr>encrypt_buf := drop (nat n) (encrypt_buf client)\<rparr>))
                    (\<lambda>(ok, n1, client2).
                      if \<not> ok then Some (- 1, client2)
                      else if status = SSLSTATUS_FAIL then Some (- 1, client2)
                      else if n1 = 0 then Some (0, client2)
                      else encrypt_loop api client2)
             else if status = SSLSTATUS_FAIL then Some (- 1, client1)
             else if n = 0 then Some (0, client1)
             else encrypt_loop api client1))"

definition do_encrypt :: "'ssl ssl_api \<Rightarrow> 'ssl ssl_client \<Rightarrow> (int \<times> 'ssl ssl_client) option" where
  "do_encrypt api client =
     (if \<not> SSL_is_init_finished api (ssl client) then Some (0, client) else encrypt_loop api client)"

text \<open>The argument is what \<open>read\<close> or \<open>write\<close> returned, with the bytes read.\<close>

definition do_stdin_read :: "int \<times> string \<Rightarrow> 'ssl ssl_client \<Rightarrow> 'ssl ssl_client" where
  "do_stdin_read r client =
     (case r of (n, buf) \<Rightarrow> if 0 < n then send_unencrypted_bytes (take (nat n) buf) client else client)"

definition do_sock_read :: "'ssl ssl_api \<Rightarrow> int \<times> string \<Rightarrow> 'ssl ssl_client \<Rightarrow> (int \<times> 'ssl ssl_client) option" where
  "do_sock_read api r client =
     (case r of (n, buf) \<Rightarrow>
       if 0 < n
       then Option.bind (on_read_cb api (take (nat n) buf) (replicate DEFAULT_BUF_SIZE (CHR 0x00), 0) client)
              (\<lambda>(rc, out, client1). Some (rc, client1))
       else Some (- 1, client))"

text \<open>The bytes that went to the socket are part of the result.\<close>

definition do_sock_write :: "int \<Rightarrow> 'ssl ssl_client \<Rightarrow> int \<times> string \<times> 'ssl ssl_client" where
  "do_sock_write n client =
     (if 0 < n
      then (0, take (nat n) (write_buf client), client\<lparr>write_buf := drop (nat n) (write_buf client)\<rparr>)
      else (- 1, [], client))"

subsection \<open>What OpenSSL documents\<close>

text \<open>
  A memory BIO gives the bytes written to it in order, at most as many as asked for, and
  -1 with the retry flag when it is empty; \<open>pending\<close> is its content.
\<close>

definition memory_wbio :: "'ssl ssl_api \<Rightarrow> ('ssl \<Rightarrow> string) \<Rightarrow> bool" where
  "memory_wbio api pending \<longleftrightarrow>
     (\<forall>s. if pending s = [] then (\<exists>b. BIO_read_wbio api DEFAULT_BUF_SIZE s = (- 1, b, s)) \<and> BIO_should_retry api s
      else \<exists>s'. BIO_read_wbio api DEFAULT_BUF_SIZE s =
          (int (min DEFAULT_BUF_SIZE (length (pending s))), take DEFAULT_BUF_SIZE (pending s), s') \<and>
        pending s' = drop DEFAULT_BUF_SIZE (pending s))"

text \<open>
  \<open>SSL_write\<close> on an established connection takes the whole text, and puts the records that
  \<open>cipher\<close> gives for it behind the content of the write BIO.
\<close>

definition accepts_all :: "'ssl ssl_api \<Rightarrow> ('ssl \<Rightarrow> string) \<Rightarrow> ('ssl \<Rightarrow> string \<Rightarrow> string) \<Rightarrow> bool" where
  "accepts_all api pending cipher \<longleftrightarrow>
     (\<forall>s buf. buf \<noteq> [] \<longrightarrow> (\<exists>s'. SSL_write api buf s = (int (length buf), s') \<and>
        pending s' = pending s @ cipher s buf \<and> SSL_get_error api s' (int (length buf)) = 0))"

text \<open>\<open>SSL_read\<close> gives the decrypted bytes that are there, in order, then -1.\<close>

definition plain_source :: "'ssl ssl_api \<Rightarrow> ('ssl \<Rightarrow> string) \<Rightarrow> bool" where
  "plain_source api plain \<longleftrightarrow>
     (\<forall>s. if plain s = [] then (\<exists>b. SSL_read api DEFAULT_BUF_SIZE s = (- 1, b, s))
      else \<exists>s'. SSL_read api DEFAULT_BUF_SIZE s =
          (int (min DEFAULT_BUF_SIZE (length (plain s))), take DEFAULT_BUF_SIZE (plain s), s') \<and>
        plain s' = drop DEFAULT_BUF_SIZE (plain s))"

lemma take_min_length: "take (min k (length s)) s = take k s"
  by (simp add: min_def)

lemma drain_wbio_result:
  assumes "memory_wbio api pending"
  shows "\<exists>s'. drain_wbio api client = Some (True, - 1, client\<lparr>ssl := s', write_buf := write_buf client @ pending (ssl client)\<rparr>) \<and>
    pending s' = []"
proof (induction "length (pending (ssl client))" arbitrary: client rule: less_induct)
  case less
  let ?p = "pending (ssl client)"
  show ?case
  proof (cases "?p = []")
    case True
    with assms obtain b where "BIO_read_wbio api DEFAULT_BUF_SIZE (ssl client) = (- 1, b, ssl client)"
      "BIO_should_retry api (ssl client)" unfolding memory_wbio_def by metis
    then show ?thesis using True by (subst drain_wbio.simps) (auto intro!: exI [of _ "ssl client"])
  next
    case False
    with assms obtain s' where s': "BIO_read_wbio api DEFAULT_BUF_SIZE (ssl client) =
        (int (min DEFAULT_BUF_SIZE (length ?p)), take DEFAULT_BUF_SIZE ?p, s')" "pending s' = drop DEFAULT_BUF_SIZE ?p"
      unfolding memory_wbio_def by metis
    let ?c = "client\<lparr>ssl := s', write_buf := write_buf client @ take DEFAULT_BUF_SIZE ?p\<rparr>"
    have pos: "0 < min DEFAULT_BUF_SIZE (length ?p)" using False by (simp add: DEFAULT_BUF_SIZE_def)
    have "drain_wbio api client = drain_wbio api ?c"
      using s'(1) pos by (subst drain_wbio.simps) (simp add: queue_encrypted_bytes_def take_min_length)
    moreover have "length (pending (ssl ?c)) < length ?p" using s'(2) False by (simp add: DEFAULT_BUF_SIZE_def)
    from less [OF this] obtain s2 where
      "drain_wbio api ?c = Some (True, - 1, ?c\<lparr>ssl := s2, write_buf := write_buf ?c @ pending (ssl ?c)\<rparr>)" "pending s2 = []"
      by blast
    ultimately show ?thesis using s'(2) by (intro exI [of _ s2]) simp
  qed
qed

subsection \<open>Properties\<close>

text \<open>
  Sending. On an established connection whose library takes whole texts, \<open>do_encrypt\<close>
  returns 0: nothing waits for encryption any more, and the records go to the queue of the
  socket, behind what was there and behind what the write BIO still held.
\<close>

theorem do_encrypt_complete:
  assumes "memory_wbio api pending" and "accepts_all api pending cipher" and "SSL_is_init_finished api (ssl client)"
    and "encrypt_buf client \<noteq> []"
  shows "\<exists>s'. do_encrypt api client = Some (0, client\<lparr>ssl := s', encrypt_buf := [],
      write_buf := write_buf client @ pending (ssl client) @ cipher (ssl client) (encrypt_buf client)\<rparr>) \<and> pending s' = []"
proof -
  let ?buf = "encrypt_buf client"
  from assms(2,4) obtain s1 where s1: "SSL_write api ?buf (ssl client) = (int (length ?buf), s1)"
    "pending s1 = pending (ssl client) @ cipher (ssl client) ?buf" "SSL_get_error api s1 (int (length ?buf)) = 0"
    unfolding accepts_all_def by blast
  let ?c = "client\<lparr>ssl := s1, encrypt_buf := []\<rparr>"
  from drain_wbio_result [OF assms(1), of ?c] obtain s2 where
    s2: "drain_wbio api ?c = Some (True, - 1, ?c\<lparr>ssl := s2, write_buf := write_buf ?c @ pending (ssl ?c)\<rparr>)" "pending s2 = []"
    by blast
  have fin: "encrypt_loop api (?c\<lparr>ssl := s2, write_buf := write_buf ?c @ pending (ssl ?c)\<rparr>) =
      Some (0, ?c\<lparr>ssl := s2, write_buf := write_buf ?c @ pending (ssl ?c)\<rparr>)"
    by (subst encrypt_loop.simps) simp
  have "encrypt_loop api client = Some (0, ?c\<lparr>ssl := s2, write_buf := write_buf ?c @ pending (ssl ?c)\<rparr>)"
    using s1 s2(1) fin assms(4)
    by (subst encrypt_loop.simps) (simp add: get_sslstatus_def Let_def)
  then show ?thesis
    using assms(3) s1(2) s2(2) by (intro exI [of _ s2]) (simp add: do_encrypt_def)
qed

text \<open>A library without encryption: its state is the content of the write BIO and the plain text to read.\<close>

definition null_ssl :: "(string \<times> string) ssl_api" where
  "null_ssl = \<lparr>SSL_do_handshake = \<lambda>s. (1, s), SSL_get_error = \<lambda>s n. if 0 < n then 0 else 2,
     SSL_is_init_finished = \<lambda>_. True,
     SSL_read = \<lambda>k (w, p). if p = [] then (- 1, [], w, p) else (int (min k (length p)), take k p, w, drop k p),
     SSL_write = \<lambda>buf (w, p). (int (length buf), w @ buf, p),
     BIO_write_rbio = \<lambda>src (w, p). (int (length src), w, p @ src),
     BIO_read_wbio = \<lambda>k (w, p). if w = [] then (- 1, [], w, p) else (int (min k (length w)), take k w, drop k w, p),
     BIO_should_retry = \<lambda>_. True\<rparr>"

lemma null_ssl_contracts:
  "memory_wbio null_ssl fst" "accepts_all null_ssl fst (\<lambda>_ buf. buf)" "plain_source null_ssl snd"
  "SSL_is_init_finished null_ssl s"
  by (auto simp: memory_wbio_def accepts_all_def plain_source_def null_ssl_def)

theorem do_encrypt_complete_witness:
  "\<exists>s'. do_encrypt null_ssl (send_unencrypted_bytes ''hello'' (ssl_client_init 7 ([], []))) =
     Some (0, \<lparr>ssl_fd = 7, ssl = s', write_buf = ''hello'', encrypt_buf = []\<rparr>)"
  using do_encrypt_complete [OF null_ssl_contracts(1,2,4), of "send_unencrypted_bytes ''hello'' (ssl_client_init 7 ([], []))"]
  by (auto simp: send_unencrypted_bytes_def ssl_client_init_def)

text \<open>
  C36. A busy loop. When the library cannot write before it has read (a renegotiation: -1
  with \<open>SSL_ERROR_WANT_READ\<close>), \<open>do_encrypt\<close> calls \<open>SSL_write\<close> again for ever and never
  returns, so nothing is read.
\<close>

theorem do_encrypt_never_returns:
  assumes "SSL_is_init_finished api (ssl client)" and "encrypt_buf client \<noteq> []"
    and "SSL_write api (encrypt_buf client) (ssl client) = (- 1, ssl client)" and "SSL_get_error api (ssl client) (- 1) = 2"
  shows "do_encrypt api client = None"
proof -
  have False if ret: "encrypt_loop api client = Some r" for r
  proof -
    have "\<not> (api = api \<and> client = client)"
    proof (rule encrypt_loop.raw_induct [where P = "\<lambda>a c r. \<not> (a = api \<and> c = client)", OF _ ret])
      fix f :: "'a ssl_api \<Rightarrow> 'a ssl_client \<Rightarrow> (int \<times> 'a ssl_client) option" and a c y
      assume IH: "\<And>a c y. f a c = Some y \<Longrightarrow> \<not> (a = api \<and> c = client)"
        and run: "(if encrypt_buf c = [] then Some (0, c)
      else (case SSL_write a (encrypt_buf c) (ssl c) of
        (n, s) \<Rightarrow>
          let client1 = c\<lparr>ssl := s\<rparr>; status = get_sslstatus a s n
          in if 0 < n
             then Option.bind (drain_wbio a (client1\<lparr>encrypt_buf := drop (nat n) (encrypt_buf c)\<rparr>))
                    (\<lambda>(ok, n1, client2).
                      if \<not> ok then Some (- 1, client2)
                      else if status = SSLSTATUS_FAIL then Some (- 1, client2)
                      else if n1 = 0 then Some (0, client2)
                      else f a client2)
             else if status = SSLSTATUS_FAIL then Some (- 1, client1)
             else if n = 0 then Some (0, client1)
             else f a client1)) = Some y"
      show "\<not> (a = api \<and> c = client)"
      proof
        assume "a = api \<and> c = client"
        with run assms(2-4) have "f api client = Some y"
          by (simp add: get_sslstatus_def Let_def)
        from IH [OF this] show False by simp
      qed
    qed
    then show False by simp
  qed
  then have "encrypt_loop api client = None" by (cases "encrypt_loop api client") auto
  then show ?thesis using assms(1) by (simp add: do_encrypt_def)
qed

theorem do_encrypt_never_returns_witness:
  "do_encrypt (null_ssl\<lparr>SSL_write := \<lambda>_ s. (- 1, s)\<rparr>) (send_unencrypted_bytes ''hello'' (ssl_client_init 7 ([], []))) = None"
  by (rule do_encrypt_never_returns) (simp_all add: null_ssl_def send_unencrypted_bytes_def ssl_client_init_def)

lemma read_plain_result:
  assumes "plain_source api plain" and "length (plain (ssl client)) = DEFAULT_BUF_SIZE * q + r" and "0 < r" and "r \<le> DEFAULT_BUF_SIZE"
  shows "\<exists>pad s'. read_plain api out client = Some (- 1, (drop (DEFAULT_BUF_SIZE * q) (plain (ssl client)) @ pad, r),
      client\<lparr>ssl := s'\<rparr>) \<and> plain s' = []"
  using assms(2)
proof (induction q arbitrary: client out)
  case 0
  let ?p = "plain (ssl client)"
  have p: "?p \<noteq> []" "take DEFAULT_BUF_SIZE ?p = ?p" "drop DEFAULT_BUF_SIZE ?p = []" "min DEFAULT_BUF_SIZE (length ?p) = r"
    using 0 assms(3,4) by auto
  from assms(1) p obtain s' where s': "SSL_read api DEFAULT_BUF_SIZE (ssl client) = (int r, ?p, s')" "plain s' = []"
    unfolding plain_source_def by metis
  from assms(1) s'(2) obtain b where b: "SSL_read api DEFAULT_BUF_SIZE s' = (- 1, b, s')"
    unfolding plain_source_def by metis
  have "take r ?p = ?p" using 0 by simp
  moreover have "read_plain api (?p @ drop r (fst out), r) (client\<lparr>ssl := s'\<rparr>) =
      Some (- 1, (?p @ drop r (fst out), r), client\<lparr>ssl := s'\<rparr>)"
    using b by (subst read_plain.simps) simp
  ultimately have "read_plain api out client = Some (- 1, (?p @ drop r (fst out), r), client\<lparr>ssl := s'\<rparr>)"
    using s'(1) assms(3) 0 by (subst read_plain.simps) (simp add: print_unencrypted_data_def)
  then show ?case using s'(2) by auto
next
  case (Suc q)
  let ?p = "plain (ssl client)"
  have p: "?p \<noteq> []" "min DEFAULT_BUF_SIZE (length ?p) = DEFAULT_BUF_SIZE"
    using Suc.prems assms(3) by auto
  from assms(1) p obtain s' where s': "SSL_read api DEFAULT_BUF_SIZE (ssl client) =
      (int DEFAULT_BUF_SIZE, take DEFAULT_BUF_SIZE ?p, s')" "plain s' = drop DEFAULT_BUF_SIZE ?p"
    unfolding plain_source_def by metis
  have "0 < DEFAULT_BUF_SIZE" by (simp add: DEFAULT_BUF_SIZE_def)
  then have "read_plain api out client = read_plain api (print_unencrypted_data (take DEFAULT_BUF_SIZE ?p) out) (client\<lparr>ssl := s'\<rparr>)"
    using s'(1) by (subst read_plain.simps) simp
  moreover have "length (plain (ssl (client\<lparr>ssl := s'\<rparr>))) = DEFAULT_BUF_SIZE * q + r"
    using Suc.prems s'(2) by simp
  from Suc.IH [OF this, of "print_unencrypted_data (take DEFAULT_BUF_SIZE ?p) out"] obtain pad s2 where
    "read_plain api (print_unencrypted_data (take DEFAULT_BUF_SIZE ?p) out) (client\<lparr>ssl := s'\<rparr>) =
      Some (- 1, (drop (DEFAULT_BUF_SIZE * q) (drop DEFAULT_BUF_SIZE ?p) @ pad, r), client\<lparr>ssl := s2\<rparr>)" "plain s2 = []"
    using s'(2) by auto
  ultimately show ?case by (auto simp: add.commute)
qed

text \<open>
  Receiving keeps the last block only. When the library has more plain text than one
  buffer, every block of 1024 bytes is written to the start of the caller's buffer, over the
  block before; the caller gets the last block and its length, the rest is lost.
\<close>

theorem read_plain_keeps_last:
  assumes "plain_source api plain" and "length (plain (ssl client)) = DEFAULT_BUF_SIZE * q + r" and "0 < r" and "r \<le> DEFAULT_BUF_SIZE"
  shows "\<exists>bufout client'. read_plain api out client = Some (- 1, (bufout, r), client') \<and>
    take r bufout = drop (DEFAULT_BUF_SIZE * q) (plain (ssl client))"
  using read_plain_result [OF assms, of out] assms(2) by fastforce

theorem read_plain_keeps_last_witness:
  "\<exists>p bufout client'. length p = 1027 \<and>
     read_plain null_ssl ([], 0) (ssl_client_init 7 ([], p)) = Some (- 1, (bufout, 3), client') \<and> take 3 bufout = drop 1024 p"
proof -
  define p where "p = replicate 1024 CHR ''a'' @ ''bcd''"
  have len: "length p = 1027" unfolding p_def by (simp only: length_append length_replicate) simp
  then have "length (snd (ssl (ssl_client_init 7 ([], p)))) = DEFAULT_BUF_SIZE * 1 + 3"
    by (simp add: ssl_client_init_def DEFAULT_BUF_SIZE_def)
  from read_plain_keeps_last [OF null_ssl_contracts(3) this, of "([], 0)"] len show ?thesis
    by (auto simp: ssl_client_init_def DEFAULT_BUF_SIZE_def)
qed

text \<open>The output side as a sequence of calls: bytes queued, and writes that the socket answers with \<open>n\<close>.\<close>

datatype out_event = Queue string | SockWrite int

fun out_run :: "out_event list \<Rightarrow> 'ssl ssl_client \<Rightarrow> string \<times> 'ssl ssl_client" where
  "out_run [] c = ([], c)"
| "out_run (Queue buf # evs) c = out_run evs (queue_encrypted_bytes buf c)"
| "out_run (SockWrite n # evs) c =
     (case do_sock_write n c of
        (rc, sent, c1) \<Rightarrow> (case out_run evs c1 of (later, c2) \<Rightarrow> (sent @ later, c2)))"

fun queued :: "out_event list \<Rightarrow> string" where
  "queued [] = []"
| "queued (Queue buf # evs) = buf @ queued evs"
| "queued (SockWrite n # evs) = queued evs"


end
