(* ===== verification/LegacyServer.thy ===== *)
theory LegacyServer
  imports HandlerFacts ConfigFile
begin

section \<open>server.cpp and client.cpp: the thread-per-connection server and its client\<close>

text \<open>
  The older server reads a request, a command digit and words separated by spaces, into a
  buffer of 1024 bytes and keeps its parsing state in local variables of the thread, which
  live as long as the connection.  The result of every \<open>read\<close> is a pair of its return
  value and the bytes it stored.  The buffer starts with whatever the stack held, a
  parameter.  The client sends its whole buffer for every line that the user types.
\<close>

record session =
  reqBuf :: string
  req_name :: string
  req_passwd :: string
  strval :: string
  req_count :: int
  command :: int

definition REQ_SIZE :: nat where
  "REQ_SIZE = 1024"

definition new_session :: "string \<Rightarrow> session" where
  "new_session stack = \<lparr>reqBuf = stack, req_name = [], req_passwd = [], strval = [], req_count = 0, command = 0\<rparr>"

definition store_read :: "int \<times> string \<Rightarrow> string \<Rightarrow> string" where
  "store_read r buf = (case r of (bytes, data) \<Rightarrow> if 0 < bytes then take (nat bytes) data @ drop (nat bytes) buf else buf)"

text \<open>The loop over the bytes after the first; running off the buffer is a fault.\<close>

fun scan_words :: "string \<Rightarrow> session \<Rightarrow> session outcome" where
  "scan_words [] t = Inl OutOfBoundsRead"
| "scan_words (c # cs) t =
     (if c = NUL then Inr t
      else if c = CHR '' ''
      then (if req_count t = INT_MAX then Inl SignedOverflow else scan_words cs (t\<lparr>req_count := req_count t + 1\<rparr>))
      else if req_count t < 4 \<and> 0 < req_count t then scan_words cs (t\<lparr>req_name := req_name t @ [c]\<rparr>)
      else scan_words cs (t\<lparr>req_passwd := req_passwd t @ [c]\<rparr>))"

definition scan_request :: "session \<Rightarrow> session outcome" where
  "scan_request t =
     (case reqBuf t of
        [] \<Rightarrow> Inl OutOfBoundsRead
      | c # cs \<Rightarrow> if c = NUL then Inr t else scan_words cs (t\<lparr>command := atoi (reqBuf t)\<rparr>))"

definition user_sql_insert :: "string \<Rightarrow> string \<Rightarrow> string" where
  "user_sql_insert name passwd = ''insert into 3d_user(name,passwd) values('' @ quoted name @ '','' @ quoted passwd @ '')''"

definition user_sql_select :: "string \<Rightarrow> string" where
  "user_sql_select name = ''SELECT * FROM 3d_user where name = '' @ quoted name"

definition user_sql_update :: "string \<Rightarrow> string \<Rightarrow> int \<Rightarrow> string" where
  "user_sql_update name passwd uid =
     ''update 3d_user set name = '' @ quoted name @ '',passwd='' @ quoted passwd @ '' where id = '' @ quoted (int_text uid)"

definition user_sql_delete :: "int \<Rightarrow> string" where
  "user_sql_delete uid = ''delete from 3d_user where id = '' @ quoted (int_text uid)"

text \<open>The switch; the local \<open>id\<close> stays 0, and an unknown command leaves \<open>strval\<close> as it was.\<close>

definition execute :: "'db mysql_api \<Rightarrow> session \<Rightarrow> 'db \<Rightarrow> (session \<times> 'db) outcome" where
  "execute api t db =
     (if command t = 1
      then bindE (sprintf_buf BUFSIZE (user_sql_insert (req_name t) (req_passwd t))) (\<lambda>sql.
           bindE (InsertData api sql db) (\<lambda>(_, db1). Inr (t\<lparr>strval := ''ok''\<rparr>, db1)))
      else if command t = 2
      then bindE (sprintf_buf BUFSIZE (user_sql_select (req_name t))) (\<lambda>sql.
           bindE (SelectData api sql 3 db) (\<lambda>(res, db1). Inr (t\<lparr>strval := res\<rparr>, db1)))
      else if command t = 3
      then bindE (sprintf_buf BUFSIZE (user_sql_update (req_name t) (req_passwd t) 0)) (\<lambda>sql.
           bindE (UpdateData api sql db) (\<lambda>(_, db1). Inr (t\<lparr>strval := ''ok''\<rparr>, db1)))
      else if command t = 4
      then bindE (sprintf_buf BUFSIZE (user_sql_delete 0)) (\<lambda>sql.
           bindE (DeleteData api sql db) (\<lambda>(_, db1). Inr (t\<lparr>strval := ''ok''\<rparr>, db1)))
      else Inr (t, db))"

text \<open>\<open>reqBuf[bytes] = 0\<close>\<close>

definition terminate_request :: "int \<Rightarrow> session \<Rightarrow> session outcome" where
  "terminate_request bytes t =
     (if bytes < 0 then Inl BufferUnderrun
      else if int REQ_SIZE \<le> bytes then Inl BufferOverflow
      else Inr (t\<lparr>reqBuf := (reqBuf t)[nat bytes := NUL]\<rparr>))"

definition serve_request ::
  "'db mysql_api \<Rightarrow> int \<times> string \<Rightarrow> session \<Rightarrow> 'db \<Rightarrow> (session \<times> 'db) outcome" where
  "serve_request api r t db =
     bindE (scan_request (t\<lparr>reqBuf := store_read r (reqBuf t)\<rparr>)) (\<lambda>t1.
     bindE (execute api t1 db) (\<lambda>(t2, db1).
     bindE (terminate_request (fst r) t2) (\<lambda>t3. Inr (t3, db1))))"

text \<open>
  The thread: one element of the list for each \<open>read\<close>.  It ends at a read of 0 bytes; the
  result has the texts written to the client, and whether the thread ended.
\<close>

fun serve_connection ::
  "'db mysql_api \<Rightarrow> (int \<times> string) list \<Rightarrow> session \<Rightarrow> 'db \<Rightarrow> (string list \<times> bool \<times> session \<times> 'db) outcome" where
  "serve_connection api [] t db = Inr ([], False, t, db)"
| "serve_connection api (r # rs) t db =
     (if fst r = 0 then Inr ([], True, t, db)
      else bindE (serve_request api r t db) (\<lambda>(t1, db1).
           bindE (serve_connection api rs t1 db1) (\<lambda>(out, ended, t2, db2).
             Inr (strval t1 # out, ended, t2, db2))))"

text \<open>
  What \<open>main\<close> does in its enabled part: the accept loop is disabled, so the process connects
  to the database, closes the connection and ends.
\<close>

definition legacy_main :: "'db mysql_api \<Rightarrow> int \<Rightarrow> 'db \<Rightarrow> int \<times> 'db" where
  "legacy_main api daemon_res db =
     (if daemon_res \<noteq> 0 then (- 1, db)
      else (case InitMySQL api db of (_, db1) \<Rightarrow>
             (case ConnMySQL api ''127.0.0.1'' ''3306'' ''3d'' ''momo'' ''momo12'' ''GBK'' db1 of (_, db2) \<Rightarrow>
               (0, CloseMySQLConn api db2))))"

text \<open>\<open>bail\<close> logs its text and ends the process, \<open>sig_term\<close> ends it on SIGTERM.\<close>

definition bail :: int where
  "bail = 1"

definition legacy_sig_term :: "int \<Rightarrow> int option" where
  "legacy_sig_term signo = (if signo = 15 then Some 0 else None)"

subsection \<open>client.cpp: one round of the main loop\<close>

datatype client_result = Again | Quit | Sent string

text \<open>
  \<open>buf\<close> is the client's buffer after \<open>fgets\<close> (the line, a NUL, and older bytes).  The test
  \<open>z > 0 && reqBuf[--z] == '\n'\<close> counts \<open>z\<close> down whether or not the last byte is a line end.
\<close>

definition chomp :: "string \<Rightarrow> string \<times> nat" where
  "chomp buf =
     (let l = length (c_str buf)
      in if 0 < l then (let z = l - 1 in (if buf ! z = CHR 0x0A then buf[z := NUL] else buf, z)) else (buf, 0))"

definition client_round :: "string \<Rightarrow> client_result" where
  "client_round buf =
     (case chomp buf of (buf1, z) \<Rightarrow>
        if z = 0 then Again
        else if map toupper (c_str buf1) = ''QUIT'' then Quit
        else Sent buf1)"

subsection \<open>Requests\<close>

text \<open>A word of a request: no space, no NUL.\<close>

definition word_ok :: "string \<Rightarrow> bool" where
  "word_ok w \<longleftrightarrow> CHR '' '' \<notin> set w \<and> NUL \<notin> set w"

lemma scan_name:
  "word_ok w \<Longrightarrow> 0 < req_count t \<Longrightarrow> req_count t < 4 \<Longrightarrow>
     scan_words (w @ cs) t = scan_words cs (t\<lparr>req_name := req_name t @ w\<rparr>)"
proof (induction w arbitrary: t)
  case Nil
  then show ?case by simp
next
  case (Cons c w)
  then have "c \<noteq> NUL" "c \<noteq> CHR '' ''" "word_ok w" by (auto simp: word_ok_def)
  with Cons.IH [of "t\<lparr>req_name := req_name t @ [c]\<rparr>"] Cons.prems show ?case by simp
qed

lemma scan_tail:
  "4 \<le> req_count t \<Longrightarrow> NUL \<notin> set w \<Longrightarrow> req_count t + int (count_list w (CHR '' '')) \<le> INT_MAX \<Longrightarrow>
     scan_words (w @ NUL # cs) t = Inr (t\<lparr>req_count := req_count t + int (count_list w (CHR '' '')),
       req_passwd := req_passwd t @ filter (\<lambda>c. c \<noteq> CHR '' '') w\<rparr>)"
proof (induction w arbitrary: t)
  case Nil
  then show ?case by simp
next
  case (Cons c w)
  then have "c \<noteq> NUL" by auto
  with Cons show ?case by (cases "c = CHR '' ''") simp_all
qed

text \<open>A request as a client types it: the command digit, a space, the name, three spaces, the password.\<close>

definition typed_request :: "char \<Rightarrow> string \<Rightarrow> string \<Rightarrow> string" where
  "typed_request d name passwd = d # CHR '' '' # name @ ''   '' @ passwd"

lemma scan_first:
  assumes "req_count t = 0" and "word_ok name" and "word_ok passwd"
  shows "scan_words (CHR '' '' # name @ ''   '' @ passwd @ NUL # cs) t =
    Inr (t\<lparr>req_count := 4, req_name := req_name t @ name, req_passwd := req_passwd t @ passwd\<rparr>)"
proof -
  have ns: "filter (\<lambda>c. c \<noteq> CHR '' '') passwd = passwd" "count_list passwd (CHR '' '') = 0" "NUL \<notin> set passwd"
    using assms(3) by (auto simp: word_ok_def filter_id_conv count_list_0_iff)
  let ?t1 = "t\<lparr>req_count := 1\<rparr>"
  have "scan_words (CHR '' '' # name @ ''   '' @ passwd @ NUL # cs) t =
      scan_words (name @ ''   '' @ passwd @ NUL # cs) ?t1"
    using assms(1) by (simp add: NUL_def INT_MAX_def)
  also have "\<dots> = scan_words (''   '' @ passwd @ NUL # cs) (?t1\<lparr>req_name := req_name t @ name\<rparr>)"
    using scan_name [OF assms(2), of ?t1] by simp
  also have "\<dots> = scan_words (passwd @ NUL # cs) (?t1\<lparr>req_name := req_name t @ name, req_count := 4\<rparr>)"
    by (simp add: NUL_def INT_MAX_def)
  also have "\<dots> = Inr (t\<lparr>req_count := 4, req_name := req_name t @ name, req_passwd := req_passwd t @ passwd\<rparr>)"
    using scan_tail [of "?t1\<lparr>req_name := req_name t @ name, req_count := 4\<rparr>" passwd cs] ns by (simp add: INT_MAX_def)
  finally show ?thesis .
qed

lemma scan_later:
  assumes "4 \<le> req_count t" and "reqBuf t = d # w @ NUL # cs" and "d \<noteq> NUL" and "NUL \<notin> set w"
    and "req_count t + int (count_list w (CHR '' '')) \<le> INT_MAX"
  shows "scan_request t = Inr (t\<lparr>command := atoi (reqBuf t), req_count := req_count t + int (count_list w (CHR '' '')),
    req_passwd := req_passwd t @ filter (\<lambda>c. c \<noteq> CHR '' '') w\<rparr>)"
  using assms scan_tail [of "t\<lparr>command := atoi (reqBuf t)\<rparr>" w cs] by (simp add: scan_request_def)

lemma atoi_digit:
  assumes "is_digit d"
  shows "atoi (d # CHR '' '' # s) = int (digit_val d)"
proof -
  note d = not_digit_sign [OF assms]
  have "c_str (d # CHR '' '' # s) = d # CHR '' '' # c_str s" using d by (simp add: c_str_def NUL_def)
  moreover have "\<not> is_digit (CHR '' '')" by (simp add: is_digit_def)
  moreover have "dropWhile is_space (d # CHR '' '' # c_str s) = d # CHR '' '' # c_str s" using d by simp
  ultimately have scan: "scan_int (c_str (d # CHR '' '' # s)) = int (digit_val d)"
    using d assms by (simp add: scan_int_def scan_sign_def digits_val_def del: dropWhile.simps)
  have "digit_val d \<le> 9" using assms unfolding is_digit_def digit_val_def by linarith
  then show ?thesis by (simp add: atoi_def scan clamp_def int32_id INT_MIN_def INT_MAX_def)
qed

subsection \<open>The session as C++ sees it\<close>

text \<open>
  The buffer has its 1024 bytes and the integers are values of \<open>int\<close>; \<open>read\<close> returns -1 or
  the number of bytes that it stored.
\<close>

definition session_ok :: "session \<Rightarrow> bool" where
  "session_ok t \<longleftrightarrow> length (reqBuf t) = REQ_SIZE \<and> 0 \<le> req_count t \<and> req_count t \<le> INT_MAX \<and>
     INT_MIN \<le> command t \<and> command t \<le> INT_MAX"

definition read_ok :: "int \<times> string \<Rightarrow> bool" where
  "read_ok r \<longleftrightarrow> fst r \<le> int REQ_SIZE \<and> (0 < fst r \<longrightarrow> int (length (snd r)) = fst r)"

lemma length_store_read: "read_ok r \<Longrightarrow> length buf = REQ_SIZE \<Longrightarrow> length (store_read r buf) = REQ_SIZE"
  by (auto simp: store_read_def read_ok_def split: prod.splits)

lemma scan_words_ok: "scan_words cs t = Inr t' \<Longrightarrow> session_ok t \<Longrightarrow> session_ok t' \<and> reqBuf t' = reqBuf t"
proof (induction cs t rule: scan_words.induct)
  case (2 c cs t)
  show ?case
  proof (cases "c = CHR '' ''")
    case True
    then have sp: "c \<noteq> NUL" "c = CHR '' ''" by (simp_all add: NUL_def)
    with 2 show ?thesis by (auto simp: session_ok_def split: if_splits)
  qed (use 2 in \<open>auto simp: session_ok_def split: if_splits\<close>)
qed simp

lemma atoi_range: "INT_MIN \<le> atoi s \<and> atoi s \<le> INT_MAX"
  unfolding atoi_def by (rule int32_range)

lemma scan_request_ok: "scan_request t = Inr t' \<Longrightarrow> session_ok t \<Longrightarrow> session_ok t'"
  using scan_words_ok [of _ "t\<lparr>command := atoi (reqBuf t)\<rparr>" t'] atoi_range [of "reqBuf t"]
  by (auto simp: scan_request_def session_ok_def split: list.splits if_splits)

lemma execute_ok: "execute api t db = Inr (t', db') \<Longrightarrow> session_ok t \<Longrightarrow> session_ok t'"
  by (auto simp: execute_def session_ok_def split: if_splits)

lemma serve_request_ok:
  assumes "serve_request api r t db = Inr (t', db')" and "read_ok r" and "session_ok t"
  shows "session_ok t'"
proof -
  have "session_ok (t\<lparr>reqBuf := store_read r (reqBuf t)\<rparr>)"
    using length_store_read [OF assms(2)] assms(3) by (simp add: session_ok_def)
  with assms(1) obtain t2 db2 where t2: "session_ok t2" "terminate_request (fst r) t2 = Inr t'"
    unfolding serve_request_def by (auto dest: scan_request_ok execute_ok)
  then show ?thesis by (auto simp: terminate_request_def session_ok_def split: if_splits)
qed

subsection \<open>Properties\<close>

text \<open>
  Only the first request of a connection is read as it was meant. Its command, name and
  password are found; but the variables are never reset, so the second request keeps the
  name of the first, and its name and password are added to the old password.
\<close>

theorem legacy_requests_mix:
  assumes "is_digit d1" and "word_ok n1" and "word_ok p1" and "is_digit d2" and "word_ok n2" and "word_ok p2"
  shows "\<exists>t1 t2. scan_request (new_session (typed_request d1 n1 p1 @ NUL # cs1)) = Inr t1 \<and>
    command t1 = int (digit_val d1) \<and> req_name t1 = n1 \<and> req_passwd t1 = p1 \<and>
    scan_request (t1\<lparr>reqBuf := typed_request d2 n2 p2 @ NUL # cs2\<rparr>) = Inr t2 \<and>
    command t2 = int (digit_val d2) \<and> req_name t2 = n1 \<and> req_passwd t2 = p1 @ n2 @ p2"
proof -
  let ?b1 = "typed_request d1 n1 p1 @ NUL # cs1" and ?b2 = "typed_request d2 n2 p2 @ NUL # cs2"
  let ?t0 = "new_session ?b1"
  define t1 where "t1 = ?t0\<lparr>command := int (digit_val d1), req_count := 4, req_name := n1, req_passwd := p1\<rparr>"
  have one: "scan_request ?t0 = Inr t1"
    using scan_first [of "?t0\<lparr>command := int (digit_val d1)\<rparr>" n1 p1 cs1] assms(2,3) atoi_digit [OF assms(1)]
      not_digit_sign [OF assms(1)]
    by (simp add: scan_request_def new_session_def typed_request_def t1_def)
  let ?w = "CHR '' '' # n2 @ ''   '' @ p2"
  have "filter (\<lambda>c. c \<noteq> CHR '' '') n2 = n2" "filter (\<lambda>c. c \<noteq> CHR '' '') p2 = p2"
    using assms(5,6) by (auto simp: word_ok_def filter_id_conv)
  then have w: "NUL \<notin> set ?w" "filter (\<lambda>c. c \<noteq> CHR '' '') ?w = n2 @ p2" "count_list ?w (CHR '' '') = 4"
    using assms(5,6) by (auto simp: word_ok_def NUL_def count_list_0_iff)
  have "scan_request (t1\<lparr>reqBuf := ?b2\<rparr>) = Inr (t1\<lparr>reqBuf := ?b2, command := atoi ?b2,
      req_count := 4 + int (count_list ?w (CHR '' '')), req_passwd := p1 @ n2 @ p2\<rparr>)"
    using scan_later [of "t1\<lparr>reqBuf := ?b2\<rparr>" d2 ?w cs2] w not_digit_sign [OF assms(4)]
    by (simp add: t1_def typed_request_def INT_MAX_def)
  moreover have "atoi ?b2 = int (digit_val d2)" using atoi_digit [OF assms(4)] by (simp add: typed_request_def)
  ultimately show ?thesis using one by (auto simp: t1_def)
qed

theorem legacy_requests_mix_witness:
  "\<exists>t1 t2. scan_request (new_session (typed_request CHR ''1'' ''ann'' ''pw'' @ [NUL])) = Inr t1 \<and>
    scan_request (t1\<lparr>reqBuf := typed_request CHR ''2'' ''bob'' ''x'' @ [NUL]\<rparr>) = Inr t2 \<and>
    req_name t2 = ''ann'' \<and> req_passwd t2 = ''pwbobx''"
proof -
  have "is_digit CHR ''1''" "word_ok ''ann''" "word_ok ''pw''" "is_digit CHR ''2''" "word_ok ''bob''" "word_ok ''x''"
    by code_simp+
  from legacy_requests_mix [OF this, of "[]" "[]"] show ?thesis by auto
qed

lemma full_read_breaks:
  assumes "length msg = REQ_SIZE"
  shows "\<exists>e. serve_connection api ((int (length msg), msg) # rs) t db = Inl e"
proof -
  have "\<exists>e. serve_request api (int REQ_SIZE, msg) t db = Inl e"
  proof (cases "serve_request api (int REQ_SIZE, msg) t db")
    case (Inr r)
    then show ?thesis by (auto simp: serve_request_def terminate_request_def split: if_splits)
  qed blast
  with assms show ?thesis by (auto simp: REQ_SIZE_def)
qed

text \<open>
  The client of the repository breaks this server. Whatever line the user types, the
  client sends its whole buffer of 1024 bytes; a read that fills the server's buffer makes
  the server write the terminating NUL one byte behind it, if the request has not run off
  its buffers before.
\<close>

theorem client_breaks_server:
  assumes "length buf = REQ_SIZE" and "client_round buf = Sent msg"
  shows "length msg = REQ_SIZE \<and> (\<exists>e. serve_connection api ((int (length msg), msg) # rs) t db = Inl e)"
proof -
  have len: "length msg = REQ_SIZE"
    using assms by (auto simp: client_round_def chomp_def Let_def split: if_splits)
  from len full_read_breaks [OF len, of api rs t db] show ?thesis by simp
qed

theorem client_breaks_server_witness:
  "\<exists>msg e. client_round (''1 ann   pw'' @ CHR 0x0A # NUL # replicate 1012 CHR ''?'') = Sent msg \<and>
     serve_connection (recording_api []) [(1024, msg)] (new_session (replicate 1024 CHR ''?'')) [] = Inl e"
proof -
  let ?buf = "''1 ann   pw'' @ CHR 0x0A # NUL # replicate 1012 CHR ''?''"
  have len: "length ?buf = REQ_SIZE" unfolding length_append list.size length_replicate by (simp add: REQ_SIZE_def)
  have line: "c_str ?buf = ''1 ann   pw'' @ [CHR 0x0A]" by (simp add: c_str_def NUL_def)
  have "\<exists>msg. client_round ?buf = Sent msg"
    unfolding client_round_def chomp_def Let_def line by (simp add: c_str_def NUL_def toupper_def)
  then obtain msg where msg: "client_round ?buf = Sent msg" by blast
  note breaks = client_breaks_server [OF len msg, of "recording_api []" "[]" "new_session (replicate 1024 CHR ''?'')" "[]"]
  then have "int (length msg) = 1024" by (simp add: REQ_SIZE_def)
  with breaks msg show ?thesis by (metis (lifting))
qed



end
