(* ===== verification/Disabled.thy ===== *)
theory Disabled
  imports LegacyServer Settings
begin

section \<open>server.cpp and printertomysql.cpp: parts that the preprocessor switches off\<close>

text \<open>
  Both files keep code between \<open>#if 0\<close> and \<open>#endif\<close>: the socket and the accept loop of the
  older server, and a test program of the database client.  They are modelled as they are
  written, as the threads of LegacyServer only run when the accept loop does.
\<close>

subsection \<open>The socket of the older server\<close>

text \<open>
  \<open>args\<close> are the arguments behind the program's name; \<open>argv[argc]\<close> is NULL, and what comes
  behind it is out of bounds.  \<open>aton\<close> is what \<open>inet_aton\<close> makes of the first one.  The
  results of the socket calls are fields, \<open>setsockopt\<close> is called without a look at its result.
\<close>

record listen_env =
  args :: "string list"
  aton :: "string \<Rightarrow> 32 word option"
  tcp_socket :: int
  bind_result :: int
  listen_result :: int

definition legacy_listen :: "listen_env \<Rightarrow> (32 word \<times> 16 word) or_exit outcome" where
  "legacy_listen env =
     (case args env of
        [] \<Rightarrow> Inl OutOfBoundsRead
      | [host] \<Rightarrow> Inl NullDereference
      | host # text # _ \<Rightarrow>
          let portnumber = atoi text
          in if portnumber = - 1 then Inr (Inl 1)
             else if tcp_socket env = - 1 then Inr (Inl 1)
             else let sin_port = word_of_int portnumber;
                      sin_addr = (case aton env host of None \<Rightarrow> 0 | Some a \<Rightarrow> a)
                  in if bind_result env = - 1 then Inr (Inl 1)
                     else if listen_result env = - 1 then Inr (Inl 1)
                     else Inr (Inr (sin_addr, sin_port)))"

text \<open>An address that cannot be read is only logged: the server then listens on all of them.\<close>

lemma legacy_listen_bad_address:
  assumes "args env = host # text # rest" and "aton env host = None" and "atoi text \<noteq> - 1"
    and "tcp_socket env \<noteq> - 1" and "bind_result env \<noteq> - 1" and "listen_result env \<noteq> - 1"
  shows "legacy_listen env = Inr (Inr (0, word_of_int (atoi text)))"
  using assms by (simp add: legacy_listen_def Let_def)

subsection \<open>The accept loop\<close>

text \<open>
  One element of the list is what \<open>accept\<close> and then \<open>pthread_create\<close> return; when it is used up
  the loop waits.  The result has the sockets with a thread, those without one, and the exit
  status if the process ends.
\<close>

fun accept_loop :: "(int \<times> int) list \<Rightarrow> int list \<times> int list \<times> int option" where
  "accept_loop [] = ([], [], None)"
| "accept_loop ((connectfd, rc) # xs) =
     (if connectfd = - 1 then ([], [], Some 1)
      else if rc = - 1 then ([], [connectfd], Some 1)
      else case accept_loop xs of (threads, lost, e) \<Rightarrow>
        if rc = 0 then (connectfd # threads, lost, e) else (threads, connectfd # lost, e))"

text \<open>
  \<open>pthread_create\<close> returns 0 or the number of an error, which is positive, never -1: the test
  in the loop does not see a failure, and the connection stays open with nobody to serve it.
\<close>

theorem accept_loop_loses:
  assumes "list_all (\<lambda>(fd, rc). fd \<noteq> - 1 \<and> 0 \<le> rc) xs"
  shows "accept_loop xs = (map fst (filter (\<lambda>x. snd x = 0) xs), map fst (filter (\<lambda>x. snd x \<noteq> 0) xs), None)"
  using assms by (induction xs rule: accept_loop.induct) auto

theorem accept_loop_loses_witness: "accept_loop [(4, 0), (5, 11), (6, 0)] = ([4, 6], [5], None)"
  using accept_loop_loses [of "[(4, 0), (5, 11), (6, 0)]"] by simp

subsection \<open>The test program of the database client\<close>

datatype test_line = Connected | ConnFailed | Inserted | InsertFailed | Selected | SelectFailed | Updated | Deleted

definition printer_sql0 :: string where
  "printer_sql0 = ''insert into 3d_user(name,passwd) values('' @ quoted ''my'' @ '','' @ quoted ''123210'' @ '')''"

definition printer_sql1 :: string where
  "printer_sql1 = ''SELECT id,name,passwd FROM 3d_user''"

definition printer_sql2 :: string where
  "printer_sql2 = ''update 3d_user set name = '' @ quoted ''fixed'' @ '',passwd='' @ quoted ''2345'' @ '' where id = '' @ quoted ''3''"

definition printer_sql3 :: string where
  "printer_sql3 = ''delete from 3d_user where id = '' @ quoted ''3'' @ '' ''"

definition printer_main :: "'db mysql_api \<Rightarrow> 'db \<Rightarrow> (int \<times> test_line list \<times> 'db) outcome" where
  "printer_main api db =
     (case InitMySQL api db of (_, db1) \<Rightarrow>
     (case ConnMySQL api ''192.168.229.130'' ''3306'' ''3d'' ''momo'' ''momo12'' ''GBK'' db1 of (rc, db2) \<Rightarrow>
       bindE (InsertData api printer_sql0 db2) (\<lambda>(rc0, db3).
       bindE (SelectData api printer_sql1 3 db3) (\<lambda>(str, db4).
       bindE (UpdateData api printer_sql2 db4) (\<lambda>(rc2, db5).
       bindE (DeleteData api printer_sql3 db5) (\<lambda>(rc3, db6).
         Inr (0, [if rc = 0 then Connected else ConnFailed, if rc0 = 0 then Inserted else InsertFailed,
                  if 0 < length str then Selected else SelectFailed] @
                 (if rc2 = 0 then [Updated] else []) @ (if rc3 = 0 then [Deleted] else []),
              CloseMySQLConn api db6)))))))"

text \<open>
  Against a server that accepts everything, the test sends its four statements in order, and
  reports the query as failed when the table is empty.
\<close>

lemma printer_sql_texts:
  "length printer_sql0 < 2048" "length printer_sql1 < 2048" "length printer_sql2 < 2048"
  "length printer_sql3 < 2048"
  "c_str printer_sql0 = printer_sql0" "c_str printer_sql1 = printer_sql1" "c_str printer_sql2 = printer_sql2"
  "c_str printer_sql3 = printer_sql3"
  by code_simp+

lemma rows_text_3: "list_all (\<lambda>fs. length fs = 3) rows \<Longrightarrow>
    \<exists>t. rows_text 3 (map (map Some) rows) = Inr t \<and> (t = [] \<longleftrightarrow> rows = [])"
proof (induction rows)
  case Nil
  then show ?case by simp
next
  case (Cons fs rows)
  then obtain a b c t where "fs = [a, b, c]" "rows_text 3 (map (map Some) rows) = Inr t"
    by (auto simp: numeral_3_eq_3 length_Suc_conv)
  then show ?case by (simp add: numeral_3_eq_3)
qed

theorem printer_main_trace:
  assumes "list_all (\<lambda>fs. length fs = 3) rows"
  shows "printer_main (recording_api (map (map Some) rows)) db =
    Inr (0, [Connected, Inserted, if rows = [] then SelectFailed else Selected, Updated, Deleted],
      db @ [printer_sql0, printer_sql1, printer_sql2, printer_sql3])"
proof -
  obtain t where "rows_text 3 (map (map Some) rows) = Inr t" "t = [] \<longleftrightarrow> rows = []"
    using rows_text_3 [OF assms] by blast
  then show ?thesis
    by (simp add: printer_main_def InitMySQL_def ConnMySQL_def InsertData_def SelectData_def UpdateData_def DeleteData_def
        CloseMySQLConn_def recording_api_def sprintf_buf_def printer_sql_texts Let_def)
qed

theorem printer_main_trace_witness:
  "\<exists>db'. printer_main (recording_api []) [] = Inr (0, [Connected, Inserted, SelectFailed, Updated, Deleted], db')"
  using printer_main_trace [of "[]" "[]"] by simp

end
