(* ===== verification/Client.thy ===== *)
theory Client
  imports LegacyServer Settings
begin

section \<open>client.cpp: the client program\<close>

text \<open>
  The whole of \<open>main\<close>: the start, up to the connection, and the loop that reads a line, sends
  it, and reads the answer.  Standard input is a string, \<open>fgets\<close> takes a line of it into the
  buffer of 1024 bytes; the results of the system calls are arguments.  One element of the
  list \<open>net\<close> is what \<open>write\<close> and then \<open>read\<close> returned in one round; when the list is used up
  the client waits for the network.  Both buffers are uninitialised at the start; of \<open>reqBuf\<close>
  the bytes behind the line are kept, as they are sent.
\<close>

text \<open>\<open>bail\<close> prints the error and ends the process.\<close>

definition client_bail :: int where
  "client_bail = 1"

record client_env =
  argc :: int
  port_text :: string
  addr_ok :: bool
  socket_res :: int
  connect_res :: int

text \<open>The port that the client connects to, \<open>htons\<close> of the number, or the exit status.\<close>

definition client_connect :: "client_env \<Rightarrow> (16 word) or_exit" where
  "client_connect env =
     (if argc env \<noteq> 3 then Inl 1
      else let portnumber = atoi (port_text env)
           in if portnumber < 0 then Inl 1
              else if socket_res env = - 1 then Inl 1
              else if \<not> addr_ok env then Inl client_bail
              else if connect_res env = - 1 then Inl 1
              else Inr (word_of_int portnumber))"

text \<open>The bytes that \<open>fgets\<close> takes: up to a line end, at most one less than the size.\<close>

definition line_of :: "nat \<Rightarrow> string \<Rightarrow> string" where
  "line_of n input =
     (let l = takeWhile (\<lambda>c. c \<noteq> CHR 0x0A) input
      in take (n - 1) (l @ take 1 (drop (length l) input)))"

definition fgets :: "nat \<Rightarrow> string \<Rightarrow> string \<Rightarrow> (string \<times> string) option" where
  "fgets n input buf =
     (if input = [] then None
      else let l = line_of n input
           in Some (l @ NUL # drop (length l + 1) buf, drop (length l) input))"

lemma line_of_nonempty: "input \<noteq> [] \<Longrightarrow> line_of REQ_SIZE input \<noteq> []"
  by (cases input) (auto simp: line_of_def REQ_SIZE_def Let_def)

lemma length_line_of: "length (line_of REQ_SIZE input) \<le> 1023"
  by (simp add: line_of_def REQ_SIZE_def Let_def)

lemma fgets_rest: "fgets REQ_SIZE input buf = Some (buf1, rest) \<Longrightarrow> length rest < length input"
  using line_of_nonempty [of input] by (auto simp: fgets_def Let_def split: if_splits)

lemma fgets_length: "fgets REQ_SIZE input buf = Some (buf1, rest) \<Longrightarrow> length buf = REQ_SIZE \<Longrightarrow> length buf1 = REQ_SIZE"
  using length_line_of [of input] by (auto simp: fgets_def REQ_SIZE_def Let_def split: if_splits)

datatype client_end = ClientExit int | ClientWaits

text \<open>
  The loop: the messages sent, and how it ended.  Each answer gets a NUL behind it,
  \<open>buf[nbytes] = '\0'\<close>.
\<close>

function client_loop ::
  "string \<Rightarrow> string \<Rightarrow> (int \<times> int \<times> string) list \<Rightarrow> (string list \<times> client_end) outcome" where
  "client_loop input rbuf net =
     (case fgets REQ_SIZE input rbuf of
        None \<Rightarrow> Inr ([], ClientExit 0)
      | Some (buf1, rest) \<Rightarrow>
          (case client_round buf1 of
             Again \<Rightarrow> client_loop rest (fst (chomp buf1)) net
           | Quit \<Rightarrow> Inr ([], ClientExit 0)
           | Sent msg \<Rightarrow>
               (case net of
                  [] \<Rightarrow> Inr ([msg], ClientWaits)
                | (z, nbytes, answer) # net' \<Rightarrow>
                    if z < 0 then Inr ([msg], ClientExit client_bail)
                    else if nbytes = - 1 then Inr ([msg], ClientExit 1)
                    else if nbytes = 0 then Inr ([msg], ClientExit 0)
                    else if nbytes < 0 then Inl BufferUnderrun
                    else if int REQ_SIZE \<le> nbytes then Inl BufferOverflow
                    else bindE (client_loop rest msg net') (\<lambda>(sent, e). Inr (msg # sent, e)))))"
  by pat_completeness auto

termination
  by (relation "measure (\<lambda>(input, buf, net). length input)") (auto dest: fgets_rest)

declare client_loop.simps [simp del]

definition client_main ::
  "client_env \<Rightarrow> string \<Rightarrow> string \<Rightarrow> (int \<times> int \<times> string) list \<Rightarrow> (string list \<times> client_end) outcome" where
  "client_main env input stack net =
     (case client_connect env of Inl e \<Rightarrow> Inr ([], ClientExit e) | Inr port \<Rightarrow> client_loop input stack net)"

subsection \<open>The buffer\<close>

lemma chomp_length: "length (fst (chomp buf)) = length buf"
  by (simp add: chomp_def Let_def)

lemma client_round_Sent: "client_round buf = Sent msg \<Longrightarrow> length msg = length buf"
  by (auto simp: client_round_def chomp_def Let_def split: if_splits)

text \<open>The results of \<open>read\<close> on a buffer of 1024 bytes that do not fill it.\<close>

definition short_reads :: "(int \<times> int \<times> string) list \<Rightarrow> bool" where
  "short_reads net \<longleftrightarrow> list_all (\<lambda>(z, nbytes, answer). - 1 \<le> nbytes \<and> nbytes < int REQ_SIZE) net"

lemma client_loop_returns:
  "short_reads net \<Longrightarrow> length rbuf = REQ_SIZE \<Longrightarrow>
     \<exists>sent e. client_loop input rbuf net = Inr (sent, e) \<and> (\<forall>m\<in>set sent. length m = REQ_SIZE) \<and>
       length sent \<le> length net + 1"
proof (induction input rbuf net rule: client_loop.induct)
  case (1 input rbuf net)
  show ?case
  proof (cases "fgets REQ_SIZE input rbuf")
    case None
    then show ?thesis by (simp add: client_loop.simps)
  next
    case (Some p)
    obtain buf1 rest where p: "p = (buf1, rest)" by fastforce
    have len: "length buf1 = REQ_SIZE" using fgets_length 1(4) Some p by simp
    show ?thesis
    proof (cases "client_round buf1")
      case Again
      with 1(1) [OF Some [unfolded p] refl Again] 1(3) len Some p show ?thesis
        by (simp add: client_loop.simps [of input] chomp_length)
    next
      case Quit
      with Some p show ?thesis by (simp add: client_loop.simps [of input])
    next
      case (Sent msg)
      have msg: "length msg = REQ_SIZE" using client_round_Sent [OF Sent] len by simp
      show ?thesis
      proof (cases net)
        case Nil
        with Sent Some p msg show ?thesis by (simp add: client_loop.simps [of input])
      next
        case (Cons r net')
        obtain z n a where r: "r = (z, n, a)" by (cases r)
        have n: "- 1 \<le> n" "n < int REQ_SIZE" "short_reads net'" using 1(3) by (simp_all add: short_reads_def Cons r)
        show ?thesis
        proof (cases "z < 0 \<or> n \<le> 0")
          case True
          with n Sent Some p msg show ?thesis by (auto simp: client_loop.simps [of input] Cons r)
        next
          case False
          with 1(2) [OF Some [unfolded p] refl Sent Cons r [symmetric] refl] n msg
          obtain sent e where "client_loop rest msg net' = Inr (sent, e)" "\<forall>m\<in>set sent. length m = REQ_SIZE"
            "length sent \<le> length net' + 1" by fastforce
          with False n Sent Some p msg show ?thesis by (simp add: client_loop.simps [of input] Cons r)
        qed
      qed
    qed
  qed
qed

text \<open>A line as the user ends it, with what follows on standard input.\<close>

definition plain_input :: "string \<Rightarrow> bool" where
  "plain_input l \<longleftrightarrow> CHR 0x0A \<notin> set l \<and> NUL \<notin> set l \<and> l \<noteq> [] \<and> length l \<le> 1022 \<and> map toupper l \<noteq> ''QUIT''"

lemma takeWhile_stop: "x \<notin> set l \<Longrightarrow> takeWhile (\<lambda>c. c \<noteq> x) (l @ x # r) = l"
  by (induction l) auto

lemma fgets_line:
  assumes "plain_input l"
  shows "fgets REQ_SIZE (l @ CHR 0x0A # rest) buf = Some (l @ CHR 0x0A # NUL # drop (length l + 2) buf, rest)"
proof -
  have "takeWhile (\<lambda>c. c \<noteq> CHR 0x0A) (l @ CHR 0x0A # rest) = l"
    using assms by (intro takeWhile_stop) (simp add: plain_input_def)
  moreover have "min (1023 - length l) (Suc 0) = Suc 0"
    using assms by (intro min.absorb2) (auto simp: plain_input_def)
  ultimately have "line_of REQ_SIZE (l @ CHR 0x0A # rest) = l @ [CHR 0x0A]"
    using assms by (simp add: line_of_def plain_input_def REQ_SIZE_def)
  then show ?thesis by (simp add: fgets_def)
qed

lemma c_str_line: "NUL \<notin> set l \<Longrightarrow> c_str (l @ NUL # r) = l"
  unfolding c_str_def by (rule takeWhile_stop)

lemma client_round_line:
  assumes "plain_input l"
  shows "client_round (l @ CHR 0x0A # NUL # r) = Sent (l @ NUL # NUL # r)"
proof -
  have l: "NUL \<notin> set l" "l \<noteq> []" "map toupper l \<noteq> ''QUIT''" using assms by (simp_all add: plain_input_def)
  have "NUL \<notin> set (l @ [CHR 0x0A])" using l(1) by (simp add: NUL_def)
  from c_str_line [OF this, of r] have "c_str (l @ CHR 0x0A # NUL # r) = l @ [CHR 0x0A]" by simp
  then have "chomp (l @ CHR 0x0A # NUL # r) = (l @ NUL # NUL # r, length l)"
    by (simp add: chomp_def list_update_append)
  then show ?thesis using l c_str_line [OF l(1), of "NUL # r"] by (simp add: client_round_def)
qed

lemma client_loop_line:
  assumes "plain_input l"
  shows "client_loop (l @ CHR 0x0A # rest) stack [] = Inr ([l @ NUL # NUL # drop (length l + 2) stack], ClientWaits)"
    and "0 \<le> z \<Longrightarrow> int REQ_SIZE \<le> n \<Longrightarrow>
      client_loop (l @ CHR 0x0A # rest) stack ((z, n, answer) # net) = Inl BufferOverflow"
proof -
  have "0 < int REQ_SIZE" by (simp add: REQ_SIZE_def)
  then show "client_loop (l @ CHR 0x0A # rest) stack [] = Inr ([l @ NUL # NUL # drop (length l + 2) stack], ClientWaits)"
    and "0 \<le> z \<Longrightarrow> int REQ_SIZE \<le> n \<Longrightarrow>
      client_loop (l @ CHR 0x0A # rest) stack ((z, n, answer) # net) = Inl BufferOverflow"
    by (simp_all add: client_loop.simps [of "l @ CHR 0x0A # rest"] fgets_line [OF assms] client_round_line [OF assms])
qed

subsection \<open>Properties\<close>

text \<open>
  The client's own buffers hold as long as no answer fills them.  When every \<open>read\<close> gives
  less than the 1024 bytes of the buffer, the client ends or waits without a fault, and has
  sent only messages of 1024 bytes, at most one more than there were answers; but an answer of
  1024 bytes makes it write its NUL behind the buffer.
\<close>

theorem client_loop_bounds:
  assumes "length stack = REQ_SIZE"
  shows "(short_reads net \<longrightarrow> (\<exists>sent e. client_main env input stack net = Inr (sent, e) \<and>
      (\<forall>m\<in>set sent. length m = REQ_SIZE) \<and> length sent \<le> length net + 1)) \<and>
    (plain_input l \<and> 0 \<le> z \<longrightarrow>
      client_loop (l @ CHR 0x0A # rest) stack ((z, int REQ_SIZE, answer) # net') = Inl BufferOverflow)"
proof -
  have "\<exists>sent e. client_main env input stack net = Inr (sent, e) \<and>
      (\<forall>m\<in>set sent. length m = REQ_SIZE) \<and> length sent \<le> length net + 1" if "short_reads net"
    using client_loop_returns [OF that assms, of input] by (auto simp: client_main_def split: sum.split)
  moreover have "client_loop (l @ CHR 0x0A # rest) stack ((z, int REQ_SIZE, answer) # net') = Inl BufferOverflow"
    if "plain_input l" "0 \<le> z"
    using that by (intro client_loop_line) simp_all
  ultimately show ?thesis by blast
qed

definition demo_client :: client_env where
  "demo_client = \<lparr>argc = 3, port_text = ''8'', addr_ok = True, socket_res = 3, connect_res = 0\<rparr>"

lemma demo_connects: "client_connect demo_client = Inr 8"
proof -
  have "atoi ''8'' = 8" by code_simp
  then show ?thesis by (simp add: client_connect_def demo_client_def)
qed

lemma demo_line: "plain_input ''1 ann   pw''"
  by (simp add: plain_input_def NUL_def toupper_def)

theorem client_loop_bounds_witness:
  "client_loop (''1 ann   pw'' @ CHR 0x0A # []) (replicate 1024 NUL) [(1024, 1024, [])] = Inl BufferOverflow \<and>
   (\<exists>sent e. client_main demo_client [] (replicate 1024 NUL) [(1024, 2, ''ok'')] = Inr (sent, e))"
proof -
  define stack where "stack = replicate 1024 NUL"
  have len: "length stack = REQ_SIZE" "int REQ_SIZE = 1024" by (simp_all only: stack_def length_replicate REQ_SIZE_def of_nat_numeral)
  have "short_reads [(1024, 2, ''ok'')]" by (simp add: short_reads_def REQ_SIZE_def)
  then show ?thesis
    using demo_line client_loop_bounds [OF len(1), of "[(1024, 2, ''ok'')]" demo_client "[]" "''1 ann   pw''" 1024 "[]" "[]" "[]"]
    unfolding stack_def [symmetric] len(2) by auto
qed

text \<open>
  The first message carries the client's stack.  For a line of at most 1022 bytes the
  client sends the line, two NUL bytes, and then all the bytes that the uninitialised buffer
  held behind them.
\<close>

theorem client_sends_stack:
  assumes "client_connect env = Inr port" and "plain_input l"
  shows "client_main env (l @ CHR 0x0A # rest) stack [] = Inr ([l @ NUL # NUL # drop (length l + 2) stack], ClientWaits)"
  using assms by (simp add: client_main_def client_loop_line)

theorem client_sends_stack_witness:
  "client_main demo_client (''1 ann   pw'' @ [CHR 0x0A]) (''?????????????'' @ ''secret'') [] =
     Inr ([''1 ann   pw'' @ NUL # NUL # ''?secret''], ClientWaits)"
proof -
  show ?thesis using client_sends_stack [OF demo_connects demo_line, of "[]"] by simp
qed

text \<open>\<open>htons\<close> takes the port modulo 65536: a larger number leads to another port.\<close>

lemma client_port_truncated:
  "client_connect env = Inr port \<Longrightarrow> 0 \<le> atoi (port_text env) \<and> uint port = atoi (port_text env) mod 65536"
  by (auto simp: client_connect_def Let_def uint_word_of_int split: if_splits)



end
