(* ===== verification/EchoServer.thy ===== *)
theory EchoServer
  imports CxxString
begin

section \<open>main.cpp: the SSL echo server\<close>

text \<open>
  A single-threaded libevent server: \<open>do_accept\<close> makes an SSL object for every connection,
  the read callback answers what it reads with a fixed text behind it.  The read event is made
  without \<open>EV_PERSIST\<close>, so libevent calls the callback once.  The theory EchoCopy has the
  second copy of the program and compares the two.  What OpenSSL and the sockets return is a
  parameter.
\<close>

record ssl_env =
  ctx_new :: bool
  verify_locations :: bool
  use_certificate :: int
  use_key :: int
  check_key :: bool
  ssl_new :: bool
  ssl_accept :: int

text \<open>True is a non-NULL result.\<close>

definition CreateSSL :: "ssl_env \<Rightarrow> bool" where
  "CreateSSL env =
     (if \<not> ctx_new env then False
      else if \<not> verify_locations env then False
      else if use_certificate env \<le> 0 then False
      else if use_key env \<le> 0 then False
      else if \<not> check_key env then False
      else if \<not> ssl_new env then False
      else if ssl_accept env \<noteq> 1 then False
      else True)"

definition MSG_SIZE :: nat where
  "MSG_SIZE = 4096"

definition echo_suffix :: string where
  "echo_suffix = CHR 0x0A # '' this is from server========server resend to client''"

text \<open>
  \<open>ssl\<close> says whether the pointer is not NULL, \<open>data\<close> is what \<open>SSL_read\<close> stored.  \<open>strcat\<close>
  looks for the end of the text in \<open>msg\<close> and writes the suffix and a NUL from there.
\<close>

definition socket_read_cb :: "bool \<Rightarrow> string \<Rightarrow> string outcome" where
  "socket_read_cb ssl data =
     (if \<not> ssl then Inl NullDereference
      else let msg = data @ replicate (MSG_SIZE - length data) NUL
           in if NUL \<notin> set msg then Inl OutOfBoundsRead
              else if MSG_SIZE < length (c_str msg) + length echo_suffix + 1 then Inl BufferOverflow
              else Inr (c_str msg @ echo_suffix))"

definition FD_SETSIZE :: int where
  "FD_SETSIZE = 1024"

text \<open>The last field of \<open>Watched\<close> is \<open>EV_PERSIST\<close> of the read event.\<close>

datatype accept_result = AcceptError | ClosedFd int | Watched int bool bool

definition do_accept :: "ssl_env \<Rightarrow> int \<Rightarrow> accept_result" where
  "do_accept env fd =
     (if fd < 0 then AcceptError
      else if FD_SETSIZE < fd then ClosedFd fd
      else Watched fd (CreateSSL env) False)"

record run_env =
  base_ok :: bool
  bind_res :: int
  listen_res :: int

text \<open>The port at which the event loop is entered, if it is; \<open>main\<close> returns 0 either way.\<close>

definition echo_run :: "run_env \<Rightarrow> int option" where
  "echo_run env =
     (if \<not> base_ok env then None else if bind_res env < 0 then None else if listen_res env < 0 then None else Some 8889)"

definition echo_main :: "run_env \<Rightarrow> int" where
  "echo_main env = (case echo_run env of None \<Rightarrow> 0 | Some port \<Rightarrow> 0)"

text \<open>
  The callbacks of libevent for one connection, given the data of every time that the socket
  becomes readable: an event that does not persist fires once.
\<close>

fun read_events :: "(bool \<Rightarrow> string \<Rightarrow> string outcome) \<Rightarrow> bool \<Rightarrow> bool \<Rightarrow> string list \<Rightarrow> string list outcome" where
  "read_events cb persist ssl [] = Inr []"
| "read_events cb persist ssl (d # ds) =
     bindE (cb ssl d) (\<lambda>r.
       if persist then bindE (read_events cb persist ssl ds) (\<lambda>rs. Inr (r # rs)) else Inr [r])"

definition serve_session ::
  "(ssl_env \<Rightarrow> int \<Rightarrow> accept_result) \<Rightarrow> (bool \<Rightarrow> string \<Rightarrow> string outcome) \<Rightarrow> ssl_env \<Rightarrow> int \<Rightarrow> string list \<Rightarrow>
   string list outcome" where
  "serve_session acc cb env fd ds =
     (case acc env fd of Watched _ ok persist \<Rightarrow> read_events cb persist ok ds | _ \<Rightarrow> Inr [])"

text \<open>A connection from accept to the answer of its first data.\<close>

definition serve_first :: "ssl_env \<Rightarrow> int \<Rightarrow> string \<Rightarrow> string option outcome" where
  "serve_first env fd data =
     (case do_accept env fd of
        Watched _ ok _ \<Rightarrow> bindE (socket_read_cb ok data) (\<lambda>r. Inr (Some r))
      | _ \<Rightarrow> Inr None)"

lemma length_echo_suffix: "length echo_suffix = 52"
  by (simp add: echo_suffix_def)

lemma socket_read_cb_eq:
  assumes "NUL \<notin> set data" and "length data \<le> MSG_SIZE"
  shows "socket_read_cb ssl data =
    (if \<not> ssl then Inl NullDereference
     else if length data = MSG_SIZE then Inl OutOfBoundsRead
     else if 4043 < length data then Inl BufferOverflow
     else Inr (data @ echo_suffix))"
proof -
  let ?msg = "data @ replicate (MSG_SIZE - length data) NUL"
  have "NUL \<notin> set ?msg \<longleftrightarrow> length data = MSG_SIZE" using assms by auto
  moreover have "c_str ?msg = data"
    using assms(1) by (cases "MSG_SIZE - length data") (auto simp: c_str_def takeWhile_append takeWhile_id)
  ultimately show ?thesis
    using assms(2) by (simp add: socket_read_cb_def Let_def length_echo_suffix MSG_SIZE_def del: replicate.simps)
qed

text \<open>
  The echo server answers a text without NUL of at most 4043 bytes with the text and the
  suffix.  A longer one makes \<open>strcat\<close> leave the buffer, and when the handshake failed the
  callback uses the NULL that \<open>CreateSSL\<close> returned.
\<close>

theorem echo_answer:
  assumes "0 \<le> fd" and "fd \<le> FD_SETSIZE" and "NUL \<notin> set data" and "length data \<le> MSG_SIZE"
  shows "serve_first env fd data =
    (if \<not> CreateSSL env then Inl NullDereference
     else if length data = MSG_SIZE then Inl OutOfBoundsRead
     else if 4043 < length data then Inl BufferOverflow
     else Inr (Some (data @ echo_suffix)))"
  using assms by (simp add: serve_first_def do_accept_def socket_read_cb_eq)

theorem echo_answer_witness:
  "serve_first \<lparr>ctx_new = True, verify_locations = True, use_certificate = 1, use_key = 1, check_key = True,
     ssl_new = True, ssl_accept = 1\<rparr> 7 ''hello'' = Inr (Some (''hello'' @ echo_suffix))"
  by (subst echo_answer) (simp_all add: FD_SETSIZE_def NUL_def MSG_SIZE_def CreateSSL_def)

end
