(* ===== verification/EchoCopy.thy ===== *)
theory EchoCopy
  imports EchoServer
begin

section \<open>server/server.cpp: the second copy of the SSL echo server\<close>

text \<open>
  The directory \<open>server\<close> has a second version of \<open>main.cpp\<close>.  Its functions are modelled here
  under the prefix \<open>srv\<close>: \<open>CreateSSL\<close> and \<open>socket_read_cb\<close> make the same calls, \<open>do_accept\<close> adds
  \<open>EV_PERSIST\<close> to the read event, and \<open>run\<close> binds another port.  The lemmas say what that
  changes for a client.
\<close>

definition srv_CreateSSL :: "ssl_env \<Rightarrow> bool" where
  "srv_CreateSSL env =
     (if \<not> ctx_new env then False
      else if \<not> verify_locations env then False
      else if use_certificate env \<le> 0 then False
      else if use_key env \<le> 0 then False
      else if \<not> check_key env then False
      else if \<not> ssl_new env then False
      else if ssl_accept env \<noteq> 1 then False
      else True)"

definition srv_socket_read_cb :: "bool \<Rightarrow> string \<Rightarrow> string outcome" where
  "srv_socket_read_cb ssl data =
     (if \<not> ssl then Inl NullDereference
      else let msg = data @ replicate (4096 - length data) NUL
           in if NUL \<notin> set msg then Inl OutOfBoundsRead
              else if 4096 < length (c_str msg) + length echo_suffix + 1 then Inl BufferOverflow
              else Inr (c_str msg @ echo_suffix))"

definition srv_do_accept :: "ssl_env \<Rightarrow> int \<Rightarrow> accept_result" where
  "srv_do_accept env fd =
     (if fd < 0 then AcceptError
      else if FD_SETSIZE < fd then ClosedFd fd
      else Watched fd (srv_CreateSSL env) True)"

definition srv_run :: "run_env \<Rightarrow> int option" where
  "srv_run env =
     (if \<not> base_ok env then None else if bind_res env < 0 then None else if listen_res env < 0 then None else Some 8080)"

definition srv_main :: "run_env \<Rightarrow> int" where
  "srv_main env = (case srv_run env of None \<Rightarrow> 0 | Some port \<Rightarrow> 0)"

lemma same_callback: "srv_socket_read_cb = socket_read_cb"
  unfolding srv_socket_read_cb_def socket_read_cb_def MSG_SIZE_def fun_eq_iff by blast

lemma same_CreateSSL: "srv_CreateSSL = CreateSSL"
  by (simp add: fun_eq_iff srv_CreateSSL_def CreateSSL_def)

text \<open>A persistent event answers all data that fit the buffer.\<close>

definition echo_fits :: "string \<Rightarrow> bool" where
  "echo_fits d \<longleftrightarrow> NUL \<notin> set d \<and> length d \<le> 4043"

lemma callback_fits: "echo_fits d \<Longrightarrow> socket_read_cb True d = Inr (d @ echo_suffix)"
  by (subst socket_read_cb_eq) (auto simp: echo_fits_def MSG_SIZE_def)

lemma read_events_persist:
  "list_all echo_fits ds \<Longrightarrow> read_events socket_read_cb True True ds = Inr (map (\<lambda>d. d @ echo_suffix) ds)"
  by (induction ds) (simp_all add: callback_fits)

subsection \<open>Properties\<close>

text \<open>
  The two copies agree on the first data of a connection, whatever these are and whatever
  OpenSSL answers, faults included: a session of the first server is a session of the second
  one that ends after its first data.  They listen in the same situations, at different ports.
\<close>

theorem echo_copies_agree:
  "serve_session do_accept socket_read_cb env fd ds = serve_session srv_do_accept srv_socket_read_cb env fd (take 1 ds) \<and>
   (echo_run renv = None) = (srv_run renv = None)"
  by (cases ds)
    (simp_all add: serve_session_def do_accept_def srv_do_accept_def same_callback same_CreateSSL echo_run_def srv_run_def
      bindE_def split: sum.splits)

text \<open>
  C40. After a successful handshake, and as long as the data fit, the second server answers
  every piece of data of a connection, the first server only the first piece: later data of
  the client are never read.
\<close>

theorem echo_sessions:
  assumes "0 \<le> fd" and "fd \<le> FD_SETSIZE" and "CreateSSL env" and "list_all echo_fits ds"
  shows "serve_session srv_do_accept srv_socket_read_cb env fd ds = Inr (map (\<lambda>d. d @ echo_suffix) ds) \<and>
    serve_session do_accept socket_read_cb env fd ds = Inr (map (\<lambda>d. d @ echo_suffix) (take 1 ds))"
  using assms
  by (cases ds)
    (simp_all add: serve_session_def do_accept_def srv_do_accept_def same_callback same_CreateSSL callback_fits
      read_events_persist)

theorem echo_sessions_witness:
  "serve_session do_accept socket_read_cb \<lparr>ctx_new = True, verify_locations = True, use_certificate = 1, use_key = 1,
     check_key = True, ssl_new = True, ssl_accept = 1\<rparr> 7 [''hello'', ''again''] = Inr [''hello'' @ echo_suffix]"
  using echo_sessions [of 7 "\<lparr>ctx_new = True, verify_locations = True, use_certificate = 1, use_key = 1,
     check_key = True, ssl_new = True, ssl_accept = 1\<rparr>" "[''hello'', ''again'']"]
  by (simp add: FD_SETSIZE_def CreateSSL_def echo_fits_def NUL_def)

end
