(* ===== verification/WinClient.thy ===== *)
theory WinClient
  imports CxxString
begin

section \<open>client_win32.cpp: the Windows test client\<close>

text \<open>
  The program connects to port 6000 of the own machine, sends one text and prints the answer.
  The results of the Winsock calls are the record \<open>win_env\<close>; \<open>recv\<close> gives its return value and
  the bytes it stored.  The result has the exit status, what was printed, and whether the
  socket was closed and \<open>WSACleanup\<close> called.
\<close>

record win_env =
  startup :: int
  win_socket_ok :: bool
  win_connect :: int
  win_send :: int
  win_recv :: "int \<times> string"

record win_end =
  status :: int
  printed :: "string option"
  sock_closed :: bool
  cleaned :: bool

definition SOCKET_ERROR :: int where
  "SOCKET_ERROR = - 1"

definition hello :: string where
  "hello = ''Hello server''"

text \<open>\<open>szBuf\<close> after \<open>memset\<close> and \<open>sprintf_s\<close>; \<open>recv\<close> stores over it.\<close>

definition szBuf :: string where
  "szBuf = hello @ replicate (1024 - length hello) NUL"

definition after_recv :: "int \<times> string \<Rightarrow> string" where
  "after_recv r = take (nat (fst r)) (snd r) @ drop (nat (fst r)) szBuf"

definition win_main :: "win_env \<Rightarrow> win_end outcome" where
  "win_main env =
     (if startup env \<noteq> 0 then Inr \<lparr>status = - 1, printed = None, sock_closed = False, cleaned = False\<rparr>
      else if \<not> win_socket_ok env then Inr \<lparr>status = - 1, printed = None, sock_closed = False, cleaned = False\<rparr>
      else if win_connect env = SOCKET_ERROR
      then Inr \<lparr>status = - 1, printed = None, sock_closed = True, cleaned = True\<rparr>
      else if win_send env = SOCKET_ERROR
      then Inr \<lparr>status = - 1, printed = None, sock_closed = True, cleaned = False\<rparr>
      else if fst (win_recv env) = SOCKET_ERROR
      then Inr \<lparr>status = - 1, printed = None, sock_closed = True, cleaned = False\<rparr>
      else if NUL \<notin> set (after_recv (win_recv env)) then Inl OutOfBoundsRead
      else Inr \<lparr>status = 0, printed = Some (c_str (after_recv (win_recv env))), sock_closed = True, cleaned = True\<rparr>)"

lemma hello_NUL: "NUL \<notin> set hello" "length hello = 12"
  by (simp_all add: hello_def NUL_def)

lemma after_recv_short:
  assumes "NUL \<notin> set data" and "length data < 1024"
  shows "c_str (after_recv (int (length data), data)) = data @ drop (length data) hello"
    and "NUL \<in> set (after_recv (int (length data), data))"
proof -
  have "drop (length data) szBuf = drop (length data) hello @ replicate (1012 - (length data - 12)) NUL"
    by (simp add: szBuf_def hello_NUL)
  moreover obtain n where "1012 - (length data - 12) = Suc n"
    using assms(2) by (cases "1012 - (length data - 12)") auto
  ultimately have buf: "after_recv (int (length data), data) = (data @ drop (length data) hello) @ NUL # replicate n NUL"
    by (simp add: after_recv_def)
  have "NUL \<notin> set (data @ drop (length data) hello)" using assms(1) hello_NUL(1) by (auto dest: in_set_dropD)
  then show "c_str (after_recv (int (length data), data)) = data @ drop (length data) hello"
    unfolding buf c_str_def by (subst takeWhile_append2) auto
  show "NUL \<in> set (after_recv (int (length data), data))" by (simp add: buf)
qed

subsection \<open>Properties\<close>

text \<open>
  The answer is printed with a rest of the request.  \<open>recv\<close> stores no NUL and the buffer
  still holds the text sent, so an answer shorter than that text is printed with its end
  behind it; a longer one is printed as it is, up to the 1024 bytes of the buffer, and one
  that fills the buffer is read past its end.
\<close>

theorem win_client_output:
  assumes "startup env = 0" and "win_socket_ok env" and "win_connect env \<noteq> SOCKET_ERROR" and "win_send env \<noteq> SOCKET_ERROR"
    and "win_recv env = (int (length data), data)" and "NUL \<notin> set data" and "length data \<le> 1024"
  shows "win_main env =
    (if length data = 1024 then Inl OutOfBoundsRead
     else Inr \<lparr>status = 0, printed = Some (data @ drop (length data) hello), sock_closed = True, cleaned = True\<rparr>)"
proof (cases "length data = 1024")
  case True
  then have "after_recv (win_recv env) = data" using assms(5) by (simp add: after_recv_def szBuf_def hello_NUL)
  with True assms show ?thesis by (simp add: win_main_def SOCKET_ERROR_def)
next
  case False
  with assms(7) have "length data < 1024" by simp
  with after_recv_short [OF assms(6) this] assms show ?thesis by (simp add: win_main_def SOCKET_ERROR_def)
qed

theorem win_client_output_witness:
  "win_main \<lparr>startup = 0, win_socket_ok = True, win_connect = 0, win_send = 12, win_recv = (2, ''ok'')\<rparr> =
     Inr \<lparr>status = 0, printed = Some ''okllo server'', sock_closed = True, cleaned = True\<rparr>"
  by (subst win_client_output [where data = "''ok''"]) (simp_all add: SOCKET_ERROR_def NUL_def hello_def)

end
