(* ===== verification/Spec2Isabelle.thy ===== *)
theory Spec2Isabelle
  imports Utils ThreadSafeList ConnPool SocketWrapper PrinterToMySQL Connection CommandHandler HandlerFacts
    HandlerProps ConfigFile ConfigProps Settings Workers Handshake Master Server Reload Threads ThreadProps ClientTcpRead
    Callbacks Intruder Deploy Signals Replies Calls SslClient LegacyServer Disabled Client EchoServer EchoCopy WinClient
begin

text \<open>
  Verification of the \<open>sunday\<close> repository, a TCP server that keeps users and devices in MySQL.

  The program.  \<open>RRMode.cpp\<close> is the main program: it connects to MySQL
  (\<open>printertomysql.cpp\<close>), reads \<open>conf/config.ini\<close> (\<open>config_file.h\<close>, \<open>init_configure.cc\<close>),
  and runs \<open>CMasterThread\<close> (\<open>master_thread.cc\<close>).  The master listens, and hands accepted
  sockets round robin to the workers of \<open>CWorkerThread\<close> (\<open>worker_threads.cc\<close>): it puts the
  socket into the worker's queue (\<open>threadSafe_container.h\<close>) and writes one byte to the
  worker's pipe.  The worker takes a connection object from a pool, registers it with
  libevent, and \<open>start_routine\<close> executes the requests that arrive.  Beside it the repository
  has an older thread-per-connection server and its client (\<open>server.cpp\<close>, \<open>client.cpp\<close>), an
  SSL layer that the server does not call at present (\<open>ssl.cpp\<close>), and an SSL echo server
  (\<open>main.cpp\<close>, and a second copy in \<open>server/server.cpp\<close>) and a Windows test client
  (\<open>client_win32.cpp\<close>).

  The theories, in the order of their imports.
  \<^item> Prelude: faults and the result type \<open>outcome\<close>, machine integers, the bytewise xor,
    and the locale \<open>invariant_steps\<close> that Handshake, Server and this theory interpret.
  \<^item> CxxString: the parts of \<open>std::string\<close>, the C string functions and number conversions.
  \<^item> StdMap: \<open>std::map\<close> as a sorted list of entries, the locale \<open>dictionary\<close>.
  \<^item> Utils: \<open>utils.h\<close> (\<open>SplitData\<close>, \<open>FindCRLF\<close>, \<open>FindSPACE\<close>, \<open>int2str\<close>).
  \<^item> ThreadSafeList: \<open>threadSafe_container.h\<close>, the locale \<open>fifo_queue\<close>.
  \<^item> ConnPool: the free list of \<open>worker_threads.cc\<close>, the locale \<open>conn_pool\<close>; it refines a stack.
  \<^item> SocketWrapper, PrinterToMySQL: the wrappers of sockets and of the MySQL client library.
  \<^item> Connection: \<open>CONN\<close> objects on a heap, \<open>InitNewConn\<close>, \<open>FreeConn\<close>, \<open>CloseConn\<close>, ownership.
  \<^item> CommandHandler, HandlerFacts, HandlerProps: \<open>start_routine\<close>, the lemmas on requests and
    replies, its properties.
  \<^item> ConfigFile, ConfigProps: \<open>config_file.h\<close>; Settings: the settings and SIGUSR1.
  \<^item> Workers: start of the workers, \<open>DispatchSfdToWorker\<close>, \<open>ReadPipeCb\<close>; Handshake: the wait for
    the registration of the threads, as a step relation with and without spurious wake-ups.
  \<^item> Master: \<open>master_thread.cc\<close> and \<open>main\<close> of \<open>RRMode.cpp\<close>.
  \<^item> Server: the running server as a step relation over callbacks, with its invariant;
    Reload: the same server with reloads of the settings between its callbacks.
  \<^item> Callbacks: the callbacks of the workers as overlapping threads, one step for every access to
    the queue, the pool, a connection object or libevent, with the owner of every object.
  \<^item> Intruder: the server under clients that never send the token, with and without reuse of the
    connection objects.
  \<^item> Signals: the threads of Callbacks with SIGUSR1 and SIGTERM between any two actions.
  \<^item> Replies: what a client can read from the stream of replies, also when a write fails;
    Calls: the actions of Callbacks as the calls of Threads.
  \<^item> Deploy: \<open>main\<close> from the configuration file to the first request and the first reload.
  \<^item> Threads, ThreadProps: the workers as threads that interleave call by call under the static
    mutex, and their equivalence with whole jobs one after the other.
  \<^item> ClientTcpRead: the echo callback that is no longer registered.
  \<^item> SslClient: \<open>ssl.cpp\<close>; LegacyServer: \<open>server.cpp\<close>; Disabled: what the preprocessor switches off
    in \<open>server.cpp\<close> and \<open>printertomysql.cpp\<close> (socket, accept loop, test program); Client: \<open>client.cpp\<close>; EchoServer, EchoCopy:
    the two SSL echo servers; WinClient: \<open>client_win32.cpp\<close>.

  Conventions.  A function of the source keeps its name.  Undefined behaviour and uncaught
  exceptions are values \<open>Inl f\<close> of type \<open>outcome\<close>, so \<open>Inr\<close> says that a call returned
  normally; exits of the process are \<open>Inl n\<close> of type \<open>or_exit\<close>.  State is passed explicitly:
  \<open>conn_store\<close> holds what the workers share about connections, \<open>io\<close> the database and the
  writes to sockets, \<open>machine\<close> the threads with the mutex, \<open>CWorkerThread\<close> the workers with
  their queues and pipes, \<open>process\<close> the configuration and settings.  MySQL, OpenSSL, libevent, the allocator and system calls are
  parameters (records of functions, or the list of their results); what a property needs of
  them is a named hypothesis (\<open>wide_results\<close>, \<open>fresh_env\<close>, \<open>memory_wbio\<close>, \<open>accepts_all\<close>,
  \<open>plain_source\<close>).  Strings are lists of bytes, \<open>int\<close> is \<open>int\<close> with its range where it
  matters, \<open>unsigned\<close> a 32-bit word.

  Loops.  \<open>SplitData\<close> and the loops of \<open>ssl.cpp\<close> are partial functions, \<open>None\<close> is a call that
  does not return; the loops of \<open>operator>>\<close> are total functions, with a measure that counts
  the unread bytes, the failure flag and the line read ahead.  \<open>WriteSfd\<close> takes the list of
  the results of its system calls and gives \<open>None\<close> when the list ends first.

  What the properties show.  For \<open>start_routine\<close>: the token gate on one read and the ways
  around it, the execution of well formed requests, one reply for every message but DELETE, the
  outcome of every command, the sizes at which its buffers hold and overflow, the loss of
  partial requests.  For the pool, the queue, the hand-over and the connections: refinement of
  a stack, first in first out, round robin, and that objects are neither shared nor lost in
  any reachable state.  For the token check: that it holds as long as objects are not used again, and
  that two connections pass it when they are.  For the start: readiness, the lost wake-up, exit
  statuses, the way from the file to the first answer, and what \<open>daemon\<close> does to the reload.  For the
  configuration: round trip, invariant, reload, also between the callbacks of the running
  server.  For the older server and the clients: types and bounds of their buffers, the inputs
  that break them.  For the echo servers: what each answers.  The header of each theory says
  more.

  Threads.  The step relation of Server takes a whole callback as one step; Threads goes down
  to the single calls of the MySQL library, the accesses to the pool and the writes, which the
  code makes while it holds the static mutex, and shows that nothing else is observable than
  whole jobs in some order, so every client gets its answers in the order of its requests.  It
  also shows the price: a client that does not read stops all
  workers while \<open>WriteSfd\<close> loops with the mutex held.  Callbacks looks at what the mutex does
  not guard: there a callback of Server is a sequence of single actions of its thread, between
  those of the others (a message of a read is one of them; Calls shows that a run of such
  actions is a run of the calls of Threads).  It shows that no two threads touch the same connection object, that
  every callback can be brought to its end by its own thread, and that the runs of Server are
  among the runs of the threads.  Signals adds the handlers, action by action, in any thread: the
  ownership of the objects stays, whole reloads are covered, and a termination can crash.

  Not modelled: log output (with the static \<open>count\<close> of \<open>DispatchSfdToWorker\<close>, which only feeds
  a log line); a signal handler in the middle of
  the reading of the configuration file, or of one call of a library; the \<open>client\<close> field of \<open>CONN\<close> and
  the SSL calls of \<open>start_routine\<close> that the preprocessor switches off; \<open>bufferevent_ssl.h\<close>, a
  header of libevent with declarations only; the headers of the other classes, which only declare
  what is modelled.  Event loops, the scheduling of libevent and the clock behind its time-outs
  are outside the program: a time-out is an event that may come at any moment.
\<close>

section \<open>From the configuration file to the workers\<close>

lemma no_number:
  assumes "\<not> is_digit c" and "\<not> is_space c" and "c \<noteq> CHR ''-''" and "c \<noteq> CHR ''+''"
  shows "string_as_int (c # s) = Inr 0"
  using assms
  by (simp add: string_as_int_def istream_int_def scan_int_def scan_sign_def digits_val_def clamp_def INT_MIN_def INT_MAX_def)

interpretation idle: invariant_steps "handshake_step False 0"
    "\<lambda>h. started h = 0 \<and> registered h = 0 \<and> main_phase h \<noteq> Passed"
  by unfold_locales (auto elim!: handshake_stepE simp: WaitForThreadRegistration_def)

lemma no_workers_wait: "handshake_reaches 0 handshake_start h \<Longrightarrow> main_phase h \<noteq> Passed"
  using idle.inv_reaches [of handshake_start h] by (simp add: handshake_start_def)

text \<open>
  C32. A number of workers that is no number is taken as zero, without an error.  At the
  start the main thread then never gets past the wait for its workers (without a spurious
  wake-up); after a reload the next connection divides by zero.
\<close>

theorem bad_worker_setting:
  assumes "map_of (myContents (config p)) ''worker.thread.num'' = Some (c # s)"
    and "\<not> is_digit c" and "\<not> is_space c" and "c \<noteq> CHR ''-''" and "c \<noteq> CHR ''+''"
    and "read_default string_as_int ''remote.listen.port'' 12006 (config p) = Inr port"
    and "read_default string_as_int ''client.heartbeat.timeout.s'' 70 (config p) = Inr timeout"
  shows "\<exists>p'. SettingsAndPrint p = Inr p' \<and> thread_num (settings p') = 0 \<and>
    (\<forall>h. handshake_reaches (thread_num (settings p')) handshake_start h \<longrightarrow> main_phase h \<noteq> Passed) \<and>
    (\<forall>w wrote fd. last_thread w < INT_MAX \<longrightarrow>
       DispatchSfdToWorker (thread_num (settings p')) wrote fd w = Inl DivideByZero)"
proof -
  have "read_default string_as_int ''worker.thread.num'' 4 (config p) = Inr 0"
    using assms(1) no_number [OF assms(2-5)] by (simp add: read_default_def)
  with assms(6,7) have "SettingsAndPrint p = Inr (p\<lparr>settings := \<lparr>remote_listen_port = port, thread_num = 0,
      client_heartbeat_timeout = timeout\<rparr>\<rparr>)"
    by (simp add: SettingsAndPrint_def)
  then show ?thesis
    using no_workers_wait by (auto simp: DispatchSfdToWorker_def)
qed

theorem bad_worker_setting_witness:
  "\<exists>p'. SettingsAndPrint (demo_process\<lparr>config := empty_config\<lparr>myContents := [(''worker.thread.num'', ''four'')]\<rparr>\<rparr>) = Inr p' \<and>
     DispatchSfdToWorker (thread_num (settings p')) True 10 two_workers = Inl DivideByZero"
proof -
  let ?p = "demo_process\<lparr>config := empty_config\<lparr>myContents := [(''worker.thread.num'', ''four'')]\<rparr>\<rparr>"
  have "\<not> is_digit CHR ''f''" "\<not> is_space CHR ''f''" by code_simp+
  from bad_worker_setting [of ?p "CHR ''f''" "''our''" 12006 70, OF _ this] show ?thesis
    by (auto simp: read_default_def two_workers_def INT_MAX_def)
qed

end
